theory Spec2Isabelle
  imports Main "HOL-Library.Word"
begin

section \<open>Strings of the host language\<close>

text \<open>
  A JavaScript string is a finite sequence of 16-bit code units. All strings of the
  program (task ids, task texts, the input field, storage keys and blobs) are modelled
  as lists of 16-bit words, so that trimming and JSON escaping see exactly the code
  units the program sees.
\<close>

type_synonym code_unit = "16 word"
type_synonym js_string = "code_unit list"

text \<open>An ASCII literal of the source, as a sequence of code units.\<close>

definition ascii :: "string \<Rightarrow> js_string" where
  "ascii s = map (\<lambda>c. of_nat (of_char c)) s"

text \<open>
  \<^verbatim>\<open>String.prototype.trim\<close> strips the code points of WhiteSpace and LineTerminator
  from both ends: TAB, LF, VT, FF, CR, SP, NBSP, U+1680, U+2000..U+200A, U+2028,
  U+2029, U+202F, U+205F, U+3000 and U+FEFF. All of them are single code units.
\<close>

definition is_white_space :: "code_unit \<Rightarrow> bool" where
  "is_white_space c \<longleftrightarrow>
     c \<in> set [0x0009, 0x000A, 0x000B, 0x000C, 0x000D, 0x0020, 0x00A0, 0x1680,
              0x2028, 0x2029, 0x202F, 0x205F, 0x3000, 0xFEFF]
     \<or> (0x2000 \<le> c \<and> c \<le> 0x200A)"

definition trim :: "js_string \<Rightarrow> js_string" where
  "trim s = rev (dropWhile is_white_space (rev (dropWhile is_white_space s)))"

text \<open>
  \<^verbatim>\<open>s.substring(a, b)\<close> for constants \<open>a \<le> b\<close>: both indices are clamped to the
  length of the string, which \<open>take\<close> and \<open>drop\<close> do as well.
\<close>

definition substring :: "js_string \<Rightarrow> nat \<Rightarrow> nat \<Rightarrow> js_string" where
  "substring s a b = take (b - a) (drop a s)"

text \<open>Decimal rendering of an integer-valued number (\<^verbatim>\<open>"" + Date.now()\<close>).\<close>

definition digit_unit :: "nat \<Rightarrow> code_unit" where
  "digit_unit d = of_nat (48 + d)"

function decimal :: "nat \<Rightarrow> js_string" where
  "decimal n = (if n < 10 then [digit_unit n] else decimal (n div 10) @ [digit_unit (n mod 10)])"
  by pat_completeness auto
termination
  by (relation "measure id") auto

definition number_to_string :: "int \<Rightarrow> js_string" where
  "number_to_string i = (if i < 0 then 0x2D # decimal (nat (- i)) else decimal (nat i))"

text \<open>
  Truthiness of a value of type \<^verbatim>\<open>string | null\<close>: \<^verbatim>\<open>null\<close> and the empty string
  are falsy, every other string is truthy.
\<close>

definition truthy :: "js_string option \<Rightarrow> bool" where
  "truthy v \<longleftrightarrow> (case v of None \<Rightarrow> False | Some s \<Rightarrow> s \<noteq> [])"


section \<open>Data model\<close>

text \<open>
  \<^verbatim>\<open>type Todo = { id: string; text: string; completed: boolean }\<close>.
  The fields \<^verbatim>\<open>id\<close> and \<^verbatim>\<open>text\<close> carry a prime, since both names are taken in
  Isabelle.
\<close>

record Todo =
  id' :: js_string
  text' :: js_string
  completed :: bool

text \<open>The component state of \<^verbatim>\<open>App\<close> (the four \<^verbatim>\<open>useState\<close> cells the logic uses).\<close>

record app_state =
  todos :: "Todo list"
  modalVisible :: bool
  input :: js_string
  editingId :: "js_string option"

definition initial_state :: app_state where
  "initial_state = \<lparr>todos = [], modalVisible = False, input = [], editingId = None\<rparr>"

definition STORAGE_KEY :: js_string where
  "STORAGE_KEY = ascii ''BLINK_TODO_LIST_V1''"


section \<open>Identifier generation\<close>

text \<open>
  \<^verbatim>\<open>uuid()\<close> reads two sources outside the program: \<^verbatim>\<open>Math.random().toString(36)\<close>
  and \<^verbatim>\<open>Date.now()\<close>. Both are inputs of the model.
\<close>

record environment =
  random36 :: js_string
  now :: int

definition uuid :: "environment \<Rightarrow> js_string" where
  "uuid env = substring (random36 env) 2 10 @ number_to_string (now env)"


section \<open>Operations on the task list\<close>

definition openAddModal :: "app_state \<Rightarrow> app_state" where
  "openAddModal s = s\<lparr>editingId := None, input := [], modalVisible := True\<rparr>"

definition openEditModal :: "Todo \<Rightarrow> app_state \<Rightarrow> app_state" where
  "openEditModal todo s = s\<lparr>editingId := Some (id' todo), input := text' todo, modalVisible := True\<rparr>"

definition setInput :: "js_string \<Rightarrow> app_state \<Rightarrow> app_state" where
  "setInput v s = s\<lparr>input := v\<rparr>"

text \<open>
  \<^verbatim>\<open>handleSave\<close>: returns at once on an input whose trim is empty; edits when
  \<^verbatim>\<open>editingId\<close> is truthy, and creates otherwise; then closes the modal. The test
  \<^verbatim>\<open>t.id === editingId\<close> compares a string with a value of type \<^verbatim>\<open>string | null\<close>.
\<close>

definition handleSave :: "environment \<Rightarrow> app_state \<Rightarrow> app_state" where
  "handleSave env s =
     (if trim (input s) = [] then s
      else
        (let s' =
           (if truthy (editingId s)
            then s\<lparr>todos :=
                   map (\<lambda>t. if Some (id' t) = editingId s then t\<lparr>text' := trim (input s)\<rparr> else t)
                     (todos s)\<rparr>
            else s\<lparr>todos :=
                   \<lparr>id' = uuid env, text' = trim (input s), completed = False\<rparr> # todos s\<rparr>)
         in s'\<lparr>modalVisible := False, input := [], editingId := None\<rparr>))"

definition handleDelete :: "js_string \<Rightarrow> app_state \<Rightarrow> app_state" where
  "handleDelete i s = s\<lparr>todos := filter (\<lambda>t. id' t \<noteq> i) (todos s)\<rparr>"

definition handleToggle :: "js_string \<Rightarrow> app_state \<Rightarrow> app_state" where
  "handleToggle i s =
     s\<lparr>todos := map (\<lambda>t. if id' t = i then t\<lparr>completed := \<not> completed t\<rparr> else t) (todos s)\<rparr>"


section \<open>JSON as the program uses it\<close>

text \<open>
  \<^verbatim>\<open>JSON.parse\<close> and \<^verbatim>\<open>JSON.stringify\<close> belong to the language, not to the
  repository. They are modelled after the JSON grammar and the quoting rules of the
  language standard, as far as the program can observe them: the parser accepts the
  whole grammar, and the serializer is the one for lists of task records.

  A parsed value. A number keeps its lexeme: the program never computes with one. An
  object is the list of its properties in creation order (no property of a task record
  has an integer-like key, which a script would enumerate first).
\<close>

datatype json =
  JNull
  | JBool bool
  | JNumber js_string
  | JString js_string
  | JArray "json list"
  | JObject "(js_string \<times> json) list"

subsection \<open>Parsing\<close>

text \<open>JSON white space is space, tab, line feed and carriage return.\<close>

definition is_json_ws :: "code_unit \<Rightarrow> bool" where
  "is_json_ws c \<longleftrightarrow> c = 0x20 \<or> c = 0x09 \<or> c = 0x0A \<or> c = 0x0D"

definition skip_ws :: "js_string \<Rightarrow> js_string" where
  "skip_ws s = dropWhile is_json_ws s"

definition is_digit :: "code_unit \<Rightarrow> bool" where
  "is_digit c \<longleftrightarrow> 0x30 \<le> c \<and> c \<le> 0x39"

text \<open>
  The body of a string literal, after the opening quotation mark, up to and including
  the closing one. An escape is a backslash followed by a quotation mark, a backslash,
  a slash, or one of the letters b, f, n, r, t, or by the letter u and four hexadecimal
  digits of either case; a code unit below U+0020 must be escaped.
\<close>

definition hex_value :: "code_unit \<Rightarrow> nat option" where
  "hex_value c =
     (if 0x30 \<le> c \<and> c \<le> 0x39 then Some (unat c - 48)
      else if 0x41 \<le> c \<and> c \<le> 0x46 then Some (unat c - 55)
      else if 0x61 \<le> c \<and> c \<le> 0x66 then Some (unat c - 87)
      else None)"

definition hex4 :: "code_unit \<Rightarrow> code_unit \<Rightarrow> code_unit \<Rightarrow> code_unit \<Rightarrow> code_unit option" where
  "hex4 a b c d =
     (case (hex_value a, hex_value b, hex_value c, hex_value d) of
        (Some x, Some y, Some z, Some w) \<Rightarrow> Some (of_nat (((x * 16 + y) * 16 + z) * 16 + w))
      | _ \<Rightarrow> None)"

definition simple_escape :: "code_unit \<Rightarrow> code_unit option" where
  "simple_escape e =
     (if e = 0x22 then Some 0x22
      else if e = 0x5C then Some 0x5C
      else if e = 0x2F then Some 0x2F
      else if e = 0x62 then Some 0x08
      else if e = 0x66 then Some 0x0C
      else if e = 0x6E then Some 0x0A
      else if e = 0x72 then Some 0x0D
      else if e = 0x74 then Some 0x09
      else None)"

definition prepend :: "code_unit \<Rightarrow> (js_string \<times> js_string) option \<Rightarrow> (js_string \<times> js_string) option" where
  "prepend u r = (case r of None \<Rightarrow> None | Some (str, rest) \<Rightarrow> Some (u # str, rest))"

fun parse_chars :: "js_string \<Rightarrow> (js_string \<times> js_string) option" where
  "parse_chars [] = None"
| "parse_chars (c # s) =
     (if c = 0x22 then Some ([], s)
      else if c = 0x5C then
        (case s of
           [] \<Rightarrow> None
         | e # s1 \<Rightarrow>
             if e = 0x75 then
               (case s1 of
                  h1 # h2 # h3 # h4 # s2 \<Rightarrow>
                    (case hex4 h1 h2 h3 h4 of
                       None \<Rightarrow> None
                     | Some u \<Rightarrow> prepend u (parse_chars s2))
                | _ \<Rightarrow> None)
             else
               (case simple_escape e of
                  None \<Rightarrow> None
                | Some u \<Rightarrow> prepend u (parse_chars s1)))
      else if c < 0x20 then None
      else prepend c (parse_chars s))"

text \<open>
  A number is an optional minus sign, an integer part without a leading zero (or a
  single zero), an optional fraction and an optional exponent.
\<close>

definition digits_then :: "js_string \<Rightarrow> (js_string \<times> js_string) option" where
  "digits_then s =
     (if takeWhile is_digit s = [] then None
      else Some (takeWhile is_digit s, dropWhile is_digit s))"

definition parse_int_part :: "js_string \<Rightarrow> (js_string \<times> js_string) option" where
  "parse_int_part s =
     (case s of
        [] \<Rightarrow> None
      | d # r \<Rightarrow> if d = 0x30 then Some ([d], r) else digits_then s)"

definition parse_fraction :: "js_string \<Rightarrow> (js_string \<times> js_string) option" where
  "parse_fraction s =
     (case s of
        [] \<Rightarrow> Some ([], s)
      | c # r \<Rightarrow>
          if c = 0x2E then
            (case digits_then r of None \<Rightarrow> None | Some (ds, rest) \<Rightarrow> Some (c # ds, rest))
          else Some ([], s))"

definition parse_exponent :: "js_string \<Rightarrow> (js_string \<times> js_string) option" where
  "parse_exponent s =
     (case s of
        [] \<Rightarrow> Some ([], s)
      | c # r \<Rightarrow>
          if c = 0x65 \<or> c = 0x45 then
            (case r of
               [] \<Rightarrow> None
             | g # r1 \<Rightarrow>
                 if g = 0x2B \<or> g = 0x2D then
                   (case digits_then r1 of None \<Rightarrow> None | Some (ds, rest) \<Rightarrow> Some (c # g # ds, rest))
                 else
                   (case digits_then r of None \<Rightarrow> None | Some (ds, rest) \<Rightarrow> Some (c # ds, rest)))
          else Some ([], s))"

definition parse_number :: "js_string \<Rightarrow> (js_string \<times> js_string) option" where
  "parse_number s =
     (let (sign, s0) = (case s of [] \<Rightarrow> ([], s) | c # r \<Rightarrow> if c = 0x2D then ([c], r) else ([], s))
      in case parse_int_part s0 of
           None \<Rightarrow> None
         | Some (ip, s1) \<Rightarrow>
             (case parse_fraction s1 of
                None \<Rightarrow> None
              | Some (fp, s2) \<Rightarrow>
                  (case parse_exponent s2 of
                     None \<Rightarrow> None
                   | Some (ep, s3) \<Rightarrow> Some (sign @ ip @ fp @ ep, s3))))"

text \<open>The three literal names.\<close>

definition parse_literal :: "js_string \<Rightarrow> (json \<times> js_string) option" where
  "parse_literal s =
     (if take 4 s = ascii ''true'' then Some (JBool True, drop 4 s)
      else if take 5 s = ascii ''false'' then Some (JBool False, drop 5 s)
      else if take 4 s = ascii ''null'' then Some (JNull, drop 4 s)
      else None)"

text \<open>
  A property whose key is already present replaces the value and keeps the place of
  the earlier one.
\<close>

fun define_property :: "(js_string \<times> json) list \<Rightarrow> js_string \<Rightarrow> json \<Rightarrow> (js_string \<times> json) list" where
  "define_property [] k v = [(k, v)]"
| "define_property ((k', v') # ms) k v =
     (if k' = k then (k, v) # ms else (k', v') # define_property ms k v)"

definition object_of :: "(js_string \<times> json) list \<Rightarrow> json" where
  "object_of ms = JObject (foldl (\<lambda>obj (k, v). define_property obj k v) [] ms)"

text \<open>
  The recursive descent over values, the elements of an array and the members of an
  object. Each nested call takes one unit of fuel, and \<open>JSON_parse\<close> starts with
  more fuel than any input can use (\<open>JSON_parse_fuel\<close> below), so \<open>OutOfFuel\<close>
  is never the answer and \<open>None\<close> stands for the \<^verbatim>\<open>SyntaxError\<close> that
  \<^verbatim>\<open>JSON.parse\<close> throws. The functions take the input after leading white space.
\<close>

datatype 'a parse_result = OutOfFuel | SyntaxError | Parsed 'a

fun parse_value :: "nat \<Rightarrow> js_string \<Rightarrow> (json \<times> js_string) parse_result"
  and parse_elements :: "nat \<Rightarrow> js_string \<Rightarrow> (json list \<times> js_string) parse_result"
  and parse_members :: "nat \<Rightarrow> js_string \<Rightarrow> ((js_string \<times> json) list \<times> js_string) parse_result"
where
  "parse_value 0 s = OutOfFuel"
| "parse_value (Suc n) s =
     (case s of
        [] \<Rightarrow> SyntaxError
      | c # r \<Rightarrow>
          if c = 0x5B then
            (case skip_ws r of
               [] \<Rightarrow> SyntaxError
             | c' # r' \<Rightarrow>
                 if c' = 0x5D then Parsed (JArray [], r')
                 else
                   (case parse_elements n (c' # r') of
                      OutOfFuel \<Rightarrow> OutOfFuel
                    | SyntaxError \<Rightarrow> SyntaxError
                    | Parsed (vs, rest) \<Rightarrow> Parsed (JArray vs, rest)))
          else if c = 0x7B then
            (case skip_ws r of
               [] \<Rightarrow> SyntaxError
             | c' # r' \<Rightarrow>
                 if c' = 0x7D then Parsed (JObject [], r')
                 else
                   (case parse_members n (c' # r') of
                      OutOfFuel \<Rightarrow> OutOfFuel
                    | SyntaxError \<Rightarrow> SyntaxError
                    | Parsed (ms, rest) \<Rightarrow> Parsed (object_of ms, rest)))
          else if c = 0x22 then
            (case parse_chars r of
               None \<Rightarrow> SyntaxError
             | Some (str, rest) \<Rightarrow> Parsed (JString str, rest))
          else if c = 0x2D \<or> is_digit c then
            (case parse_number s of
               None \<Rightarrow> SyntaxError
             | Some (lexeme, rest) \<Rightarrow> Parsed (JNumber lexeme, rest))
          else
            (case parse_literal s of
               None \<Rightarrow> SyntaxError
             | Some (v, rest) \<Rightarrow> Parsed (v, rest)))"
| "parse_elements 0 s = OutOfFuel"
| "parse_elements (Suc n) s =
     (case parse_value n s of
        OutOfFuel \<Rightarrow> OutOfFuel
      | SyntaxError \<Rightarrow> SyntaxError
      | Parsed (v, rest) \<Rightarrow>
          (case skip_ws rest of
             [] \<Rightarrow> SyntaxError
           | c # r \<Rightarrow>
               if c = 0x5D then Parsed ([v], r)
               else if c = 0x2C then
                 (case parse_elements n (skip_ws r) of
                    OutOfFuel \<Rightarrow> OutOfFuel
                  | SyntaxError \<Rightarrow> SyntaxError
                  | Parsed (vs, rest') \<Rightarrow> Parsed (v # vs, rest'))
               else SyntaxError))"
| "parse_members 0 s = OutOfFuel"
| "parse_members (Suc n) s =
     (case s of
        [] \<Rightarrow> SyntaxError
      | q # r \<Rightarrow>
          if q = 0x22 then
            (case parse_chars r of
               None \<Rightarrow> SyntaxError
             | Some (k, rest) \<Rightarrow>
                 (case skip_ws rest of
                    [] \<Rightarrow> SyntaxError
                  | c # r1 \<Rightarrow>
                      if c = 0x3A then
                        (case parse_value n (skip_ws r1) of
                           OutOfFuel \<Rightarrow> OutOfFuel
                         | SyntaxError \<Rightarrow> SyntaxError
                         | Parsed (v, rest1) \<Rightarrow>
                             (case skip_ws rest1 of
                                [] \<Rightarrow> SyntaxError
                              | d # r2 \<Rightarrow>
                                  if d = 0x7D then Parsed ([(k, v)], r2)
                                  else if d = 0x2C then
                                    (case parse_members n (skip_ws r2) of
                                       OutOfFuel \<Rightarrow> OutOfFuel
                                     | SyntaxError \<Rightarrow> SyntaxError
                                     | Parsed (ms, rest2) \<Rightarrow> Parsed ((k, v) # ms, rest2))
                                  else SyntaxError))
                      else SyntaxError))
          else SyntaxError)"

definition JSON_parse :: "js_string \<Rightarrow> json option" where
  "JSON_parse s =
     (case parse_value (2 * length s + 2) (skip_ws s) of
        Parsed (v, rest) \<Rightarrow> if skip_ws rest = [] then Some v else None
      | _ \<Rightarrow> None)"

subsection \<open>Serializing\<close>

text \<open>
  Quoting a string: the two-character escapes for backspace, tab, line feed, form feed,
  carriage return, the quotation mark and the backslash; a backslash, the letter u and
  four lower-case hexadecimal digits for the other code units below U+0020 and for a
  surrogate that is not part of a pair; every other code unit as it is.
\<close>

definition hex_digit :: "nat \<Rightarrow> code_unit" where
  "hex_digit d = (if d < 10 then of_nat (48 + d) else of_nat (87 + d))"

definition unicode_escape :: "code_unit \<Rightarrow> js_string" where
  "unicode_escape c =
     [0x5C, 0x75, hex_digit (unat c div 4096), hex_digit (unat c div 256 mod 16),
      hex_digit (unat c div 16 mod 16), hex_digit (unat c mod 16)]"

definition is_high_surrogate :: "code_unit \<Rightarrow> bool" where
  "is_high_surrogate c \<longleftrightarrow> 0xD800 \<le> c \<and> c \<le> 0xDBFF"

definition is_low_surrogate :: "code_unit \<Rightarrow> bool" where
  "is_low_surrogate c \<longleftrightarrow> 0xDC00 \<le> c \<and> c \<le> 0xDFFF"

definition quote_unit :: "code_unit \<Rightarrow> js_string" where
  "quote_unit c =
     (if c = 0x08 then [0x5C, 0x62]
      else if c = 0x09 then [0x5C, 0x74]
      else if c = 0x0A then [0x5C, 0x6E]
      else if c = 0x0C then [0x5C, 0x66]
      else if c = 0x0D then [0x5C, 0x72]
      else if c = 0x22 then [0x5C, 0x22]
      else if c = 0x5C then [0x5C, 0x5C]
      else if c < 0x20 \<or> is_high_surrogate c \<or> is_low_surrogate c then unicode_escape c
      else [c])"

fun quote_chars :: "js_string \<Rightarrow> js_string" where
  "quote_chars [] = []"
| "quote_chars [c] = quote_unit c"
| "quote_chars (c # d # s) =
     (if is_high_surrogate c \<and> is_low_surrogate d then c # d # quote_chars s
      else quote_unit c @ quote_chars (d # s))"

definition quote :: "js_string \<Rightarrow> js_string" where
  "quote s = 0x22 # quote_chars s @ [0x22]"

text \<open>
  A task record is written with its properties in creation order, \<^verbatim>\<open>id\<close>,
  \<^verbatim>\<open>text\<close>, \<^verbatim>\<open>completed\<close>, and a list as its elements between brackets, separated
  by commas, with no white space.
\<close>

definition stringify_todo :: "Todo \<Rightarrow> js_string" where
  "stringify_todo t =
     ascii ''{'' @ quote (ascii ''id'') @ ascii '':'' @ quote (id' t)
     @ ascii '','' @ quote (ascii ''text'') @ ascii '':'' @ quote (text' t)
     @ ascii '','' @ quote (ascii ''completed'') @ ascii '':''
     @ (if completed t then ascii ''true'' else ascii ''false'') @ ascii ''}''"

fun join_comma :: "js_string list \<Rightarrow> js_string" where
  "join_comma [] = []"
| "join_comma [x] = x"
| "join_comma (x # y # r) = x @ 0x2C # join_comma (y # r)"

definition JSON_stringify :: "Todo list \<Rightarrow> js_string" where
  "JSON_stringify ts = 0x5B # join_comma (map stringify_todo ts) @ [0x5D]"

subsection \<open>Task records as JSON values\<close>

text \<open>
  The JavaScript value of a task record, and the partial inverse: a parsed value is
  read as a list of task records when it is an array of objects that have exactly the
  properties \<^verbatim>\<open>id\<close> (a string), \<^verbatim>\<open>text\<close> (a string) and \<^verbatim>\<open>completed\<close> (a boolean),
  in this order.
\<close>

definition todo_json :: "Todo \<Rightarrow> json" where
  "todo_json t =
     JObject [(ascii ''id'', JString (id' t)), (ascii ''text'', JString (text' t)),
              (ascii ''completed'', JBool (completed t))]"

definition todos_json :: "Todo list \<Rightarrow> json" where
  "todos_json ts = JArray (map todo_json ts)"

definition as_todo :: "json \<Rightarrow> Todo option" where
  "as_todo v =
     (case v of
        JObject [(k1, JString i), (k2, JString t), (k3, JBool c)] \<Rightarrow>
          if k1 = ascii ''id'' \<and> k2 = ascii ''text'' \<and> k3 = ascii ''completed''
          then Some \<lparr>id' = i, text' = t, completed = c\<rparr> else None
      | _ \<Rightarrow> None)"

fun as_todo_list :: "json list \<Rightarrow> Todo list option" where
  "as_todo_list [] = Some []"
| "as_todo_list (v # vs) =
     (case as_todo v of
        None \<Rightarrow> None
      | Some t \<Rightarrow> (case as_todo_list vs of None \<Rightarrow> None | Some ts \<Rightarrow> Some (t # ts)))"

definition as_todos :: "json \<Rightarrow> Todo list option" where
  "as_todos v = (case v of JArray vs \<Rightarrow> as_todo_list vs | _ \<Rightarrow> None)"


section \<open>Persistence\<close>

text \<open>
  The outcome of awaiting a promise: it was rejected, or it resolved with a value.
\<close>

datatype 'a settled = Rejected | Resolved 'a

text \<open>
  \<^verbatim>\<open>AsyncStorage\<close> is a collaborator outside the program: a store of strings under
  string keys whose calls may fail. A working store answers \<^verbatim>\<open>getItem\<close> with the
  stored string or \<^verbatim>\<open>null\<close>, and takes every \<^verbatim>\<open>setItem\<close>; a failing store rejects
  every call.
\<close>

datatype async_storage = Failing | Working "js_string \<rightharpoonup> js_string"

definition getItem :: "async_storage \<Rightarrow> js_string \<Rightarrow> js_string option settled" where
  "getItem st k = (case st of Failing \<Rightarrow> Rejected | Working m \<Rightarrow> Resolved (m k))"

definition setItem :: "async_storage \<Rightarrow> js_string \<Rightarrow> js_string \<Rightarrow> async_storage" where
  "setItem st k v = (case st of Failing \<Rightarrow> Failing | Working m \<Rightarrow> Working (m(k \<mapsto> v)))"

text \<open>
  The effect on \<^verbatim>\<open>[todos]\<close>:
  \<^verbatim>\<open>AsyncStorage.setItem(STORAGE_KEY, JSON.stringify(todos))\<close>. The promise it returns
  is dropped, so a rejected write leaves no trace in the program.
\<close>

definition persist :: "async_storage \<Rightarrow> app_state \<Rightarrow> async_storage" where
  "persist st s = setItem st STORAGE_KEY (JSON_stringify (todos s))"

text \<open>
  \<^verbatim>\<open>loadTodos\<close>: the \<^verbatim>\<open>try\<close> block covers the read and the parse, and the handler
  is empty, so a rejected read and a \<^verbatim>\<open>SyntaxError\<close> both leave the state as it is;
  so does a \<^verbatim>\<open>null\<close> or empty blob (\<^verbatim>\<open>if (data)\<close>). Otherwise the parsed value is
  stored in the \<^verbatim>\<open>todos\<close> cell as it is: the annotation \<^verbatim>\<open>Todo[]\<close> is erased at run
  time. When that value is a list of task records the result is the new state
  (\<open>Inr\<close>); any other value is returned as it is (\<open>Inl\<close>), since the state
  record of this model has no place for it.
\<close>

definition loadTodos :: "async_storage \<Rightarrow> app_state \<Rightarrow> json + app_state" where
  "loadTodos st s =
     (case getItem st STORAGE_KEY of
        Rejected \<Rightarrow> Inr s
      | Resolved None \<Rightarrow> Inr s
      | Resolved (Some data) \<Rightarrow>
          if data = [] then Inr s
          else
            (case JSON_parse data of
               None \<Rightarrow> Inr s
             | Some v \<Rightarrow>
                 (case as_todos v of
                    None \<Rightarrow> Inl v
                  | Some ts \<Rightarrow> Inr (s\<lparr>todos := ts\<rparr>))))"


section \<open>Invariants\<close>

text \<open>The two invariants of the data model.\<close>

definition ids :: "Todo list \<Rightarrow> js_string list" where
  "ids ts = map id' ts"

definition texts_nonempty :: "Todo list \<Rightarrow> bool" where
  "texts_nonempty ts \<longleftrightarrow> list_all (\<lambda>t. text' t \<noteq> []) ts"

text \<open>
  The number of positions at which two lists differ: the positions that both lists have
  and where the tasks differ, and the positions that only the longer list has.
\<close>

definition changed :: "Todo list \<Rightarrow> Todo list \<Rightarrow> nat" where
  "changed ts ts' =
     length (filter (\<lambda>(a, b). a \<noteq> b) (zip ts ts'))
     + (length ts - length ts') + (length ts' - length ts)"


section \<open>Sample inputs\<close>

text \<open>Concrete inputs at which the theorems below are instantiated.\<close>

definition sample_env :: environment where
  "sample_env = \<lparr>random36 = ascii ''0.4fzyo82mvyr'', now = 1700000000000\<rparr>"

definition milk :: Todo where
  "milk = \<lparr>id' = ascii ''k3j9x2aa1699999999000'', text' = ascii ''Buy milk'', completed = False\<rparr>"

definition dog :: Todo where
  "dog = \<lparr>id' = ascii ''p0q8w7zz1699999999500'', text' = ascii ''Walk dog'', completed = True\<rparr>"

definition two_todos :: app_state where
  "two_todos = initial_state\<lparr>todos := [dog, milk]\<rparr>"

definition later_env :: environment where
  "later_env = \<lparr>random36 = ascii ''0.9d1c2q7h5kz'', now = 1700000005000\<rparr>"

text \<open>A task whose id is the empty string, as a stored blob may contain it.\<close>

definition nameless :: Todo where
  "nameless = \<lparr>id' = [], text' = ascii ''a'', completed = False\<rparr>"

definition nameless_edit :: app_state where
  "nameless_edit = setInput (ascii ''b'') (openEditModal nameless (initial_state\<lparr>todos := [nameless]\<rparr>))"

text \<open>
  A task whose id is the one that \<open>sample_env\<close> generates, next to the task with the
  empty id.
\<close>

definition clash :: Todo where
  "clash = \<lparr>id' = ascii ''4fzyo82m1700000000000'', text' = ascii ''x'', completed = False\<rparr>"

definition clash_edit :: app_state where
  "clash_edit =
     setInput (ascii ''b'') (openEditModal nameless (initial_state\<lparr>todos := [nameless, clash]\<rparr>))"


text \<open>
  Stores with no blob, with a blob that is not JSON, and with blobs that are a number,
  the null value and an empty object.
\<close>

definition empty_store :: async_storage where
  "empty_store = Working Map.empty"

definition corrupt_store :: async_storage where
  "corrupt_store = Working [STORAGE_KEY \<mapsto> ascii ''[{'']"




text \<open>
  A task whose text holds a quotation mark, a backslash, a line feed, a lone surrogate,
  a letter and a surrogate pair.
\<close>

definition tricky :: Todo where
  "tricky = \<lparr>id' = ascii ''t1'', text' = [0x22, 0x5C, 0x0A, 0xD800, 0x61, 0xD83D, 0xDE00],
             completed = True\<rparr>"


section \<open>Auxiliary facts about the JSON functions\<close>

text \<open>The equations of the string parser are applied by name only.\<close>

declare parse_chars.simps [simp del]

subsection \<open>A quoted string parses to itself\<close>

lemma unat_small: "n < 65536 \<Longrightarrow> unat (of_nat n :: code_unit) = n"
  by (simp add: unat_of_nat)

lemma unat_hex_digit: "d < 16 \<Longrightarrow> unat (hex_digit d) = (if d < 10 then 48 + d else 87 + d)"
  unfolding hex_digit_def using unat_small[of "48 + d"] unat_small[of "87 + d"]
  by (simp del: of_nat_add)

lemma hex_value_unat:
  "hex_value c =
     (if 48 \<le> unat c \<and> unat c \<le> 57 then Some (unat c - 48)
      else if 65 \<le> unat c \<and> unat c \<le> 70 then Some (unat c - 55)
      else if 97 \<le> unat c \<and> unat c \<le> 102 then Some (unat c - 87)
      else None)"
  by (simp add: hex_value_def word_le_nat_alt)

lemma hex_value_digit: "d < 16 \<Longrightarrow> hex_value (hex_digit d) = Some d"
  by (simp add: hex_value_unat unat_hex_digit)

lemma recompose:
  "((n div 4096 * 16 + n div 256 mod 16) * 16 + n div 16 mod 16) * 16 + n mod 16 = (n::nat)"
proof -
  have "n div 256 div 16 = n div 4096" "n div 16 div 16 = n div 256"
    by (simp_all add: div_mult2_eq[symmetric])
  then have a: "n div 4096 * 16 + n div 256 mod 16 = n div 256"
    and b: "n div 256 * 16 + n div 16 mod 16 = n div 16"
    using div_mult_mod_eq[of "n div 256" 16] div_mult_mod_eq[of "n div 16" 16]
    by (simp_all only:)
  show ?thesis
    by (simp only: a b div_mult_mod_eq)
qed

lemma hex4_escape:
  "hex4 (hex_digit (unat c div 4096)) (hex_digit (unat c div 256 mod 16))
        (hex_digit (unat c div 16 mod 16)) (hex_digit (unat c mod 16)) = Some (c :: code_unit)"
proof -
  have "unat c < 65536" using unsigned_less[of c] by simp
  then have a: "unat c div 4096 < 16" by simp
  have b: "unat c div 256 mod 16 < 16" "unat c div 16 mod 16 < 16" "unat c mod 16 < 16"
    by simp_all
  have "hex4 (hex_digit (unat c div 4096)) (hex_digit (unat c div 256 mod 16))
        (hex_digit (unat c div 16 mod 16)) (hex_digit (unat c mod 16))
      = Some (of_nat (((unat c div 4096 * 16 + unat c div 256 mod 16) * 16
                        + unat c div 16 mod 16) * 16 + unat c mod 16))"
    by (simp only: hex4_def hex_value_digit[OF a] hex_value_digit[OF b(1)]
        hex_value_digit[OF b(2)] hex_value_digit[OF b(3)] prod.case option.case)
  also have "\<dots> = Some (of_nat (unat c))" by (simp only: recompose)
  also have "\<dots> = Some c" by simp
  finally show ?thesis .
qed

lemma parse_chars_unicode_escape:
  "parse_chars (unicode_escape c @ rest) = prepend c (parse_chars rest)"
  by (simp add: unicode_escape_def hex4_escape parse_chars.simps)

lemma parse_chars_plain:
  "c \<noteq> 0x22 \<Longrightarrow> c \<noteq> 0x5C \<Longrightarrow> \<not> c < 0x20 \<Longrightarrow> parse_chars (c # rest) = prepend c (parse_chars rest)"
  by (simp add: parse_chars.simps)

lemma parse_chars_quote_unit:
  "parse_chars (quote_unit c @ rest) = prepend c (parse_chars rest)"
  by (simp add: quote_unit_def parse_chars_unicode_escape parse_chars_plain)
    (simp add: parse_chars.simps simple_escape_def)

lemma surrogate_plain:
  "is_high_surrogate c \<or> is_low_surrogate c \<Longrightarrow> c \<noteq> 0x22 \<and> c \<noteq> 0x5C \<and> \<not> c < 0x20"
  by (auto simp: is_high_surrogate_def is_low_surrogate_def word_le_nat_alt word_less_nat_alt)

lemma parse_chars_surrogate:
  "is_high_surrogate c \<or> is_low_surrogate c \<Longrightarrow> parse_chars (c # rest) = prepend c (parse_chars rest)"
  using surrogate_plain[of c] by (simp add: parse_chars_plain)

lemma parse_chars_quote_chars:
  "parse_chars (quote_chars s @ 0x22 # rest) = Some (s, rest)"
proof (induction s rule: quote_chars.induct)
  case 1
  show ?case by (simp add: parse_chars.simps)
next
  case (2 c)
  show ?case by (simp add: parse_chars_quote_unit prepend_def parse_chars.simps)
next
  case (3 c d s)
  show ?case
  proof (cases "is_high_surrogate c \<and> is_low_surrogate d")
    case True
    then have q: "quote_chars (c # d # s) = c # d # quote_chars s"
      by simp
    from True have "parse_chars (quote_chars s @ 0x22 # rest) = Some (s, rest)"
      by (rule 3)
    then show ?thesis using True
      by (simp del: quote_chars.simps add: q parse_chars_surrogate prepend_def)
  next
    case False
    then have q: "quote_chars (c # d # s) = quote_unit c @ quote_chars (d # s)"
      by (simp only: quote_chars.simps simp_thms if_False)
    from False have "parse_chars (quote_chars (d # s) @ 0x22 # rest) = Some (d # s, rest)"
      by (rule 3)
    then show ?thesis
      by (simp del: quote_chars.simps add: q parse_chars_quote_unit prepend_def)
  qed
qed



lemma skip_ws_Cons: "\<not> is_json_ws c \<Longrightarrow> skip_ws (c # r) = c # r"
  by (simp add: skip_ws_def)

lemma parse_value_string:
  "parse_value (Suc n) (quote s @ rest) = Parsed (JString s, rest)"
  by (simp add: quote_def parse_chars_quote_chars)

lemma parse_value_bool:
  "parse_value (Suc n) ((if b then ascii ''true'' else ascii ''false'') @ rest) = Parsed (JBool b, rest)"
  by (simp add: ascii_def parse_literal_def is_digit_def)

lemma skip_ws_quote: "skip_ws (quote s @ r) = quote s @ r"
  by (simp add: quote_def skip_ws_Cons is_json_ws_def)

lemma skip_ws_bool: "skip_ws ((if b then ascii ''true'' else ascii ''false'') @ r)
    = (if b then ascii ''true'' else ascii ''false'') @ r"
  by (simp add: ascii_def skip_ws_Cons is_json_ws_def)

lemma parse_members_last:
  assumes "parse_value n v_text = Parsed (v, 0x7D # rest)" and "skip_ws v_text = v_text"
  shows "parse_members (Suc n) (quote k @ 0x3A # v_text) = Parsed ([(k, v)], rest)"
  using assms
  by (simp add: quote_def parse_chars_quote_chars skip_ws_Cons is_json_ws_def)

lemma parse_members_more:
  assumes "parse_value n v_text = Parsed (v, 0x2C # quote k' @ r)"
    and "skip_ws v_text = v_text"
    and "parse_members n (quote k' @ r) = Parsed (ms, rest)"
  shows "parse_members (Suc n) (quote k @ 0x3A # v_text) = Parsed ((k, v) # ms, rest)"
  using assms
  by (simp add: quote_def parse_chars_quote_chars skip_ws_Cons is_json_ws_def)

lemma parse_value_object:
  assumes "parse_members n (quote k @ r) = Parsed (ms, rest)"
  shows "parse_value (Suc n) (0x7B # quote k @ r) = Parsed (object_of ms, rest)"
  using assms
  by (simp add: quote_def skip_ws_Cons is_json_ws_def)

lemma object_of_todo:
  "object_of [(ascii ''id'', a), (ascii ''text'', b), (ascii ''completed'', c)]
     = JObject [(ascii ''id'', a), (ascii ''text'', b), (ascii ''completed'', c)]"
  by (simp add: object_of_def ascii_def)

lemma parse_value_todo:
  "parse_value (Suc (Suc (Suc (Suc (Suc n))))) (stringify_todo t @ rest) = Parsed (todo_json t, rest)"
proof -
  let ?c = "(if completed t then ascii ''true'' else ascii ''false'') @ 0x7D # rest"
  let ?m3 = "quote (ascii ''completed'') @ 0x3A # ?c"
  let ?v2 = "quote (text' t) @ 0x2C # ?m3"
  let ?m2 = "quote (ascii ''text'') @ 0x3A # ?v2"
  let ?v1 = "quote (id' t) @ 0x2C # ?m2"
  let ?m1 = "quote (ascii ''id'') @ 0x3A # ?v1"
  have s: "stringify_todo t @ rest = 0x7B # ?m1"
    by (simp add: stringify_todo_def ascii_def)
  have c: "parse_value (Suc n) ?c = Parsed (JBool (completed t), 0x7D # rest)"
    by (rule parse_value_bool)
  have m3: "parse_members (Suc (Suc n)) ?m3 = Parsed ([(ascii ''completed'', JBool (completed t))], rest)"
    using c skip_ws_bool by (rule parse_members_last)
  have v2: "parse_value (Suc (Suc n)) ?v2 = Parsed (JString (text' t), 0x2C # ?m3)"
    by (rule parse_value_string)
  have m2: "parse_members (Suc (Suc (Suc n))) ?m2
      = Parsed ([(ascii ''text'', JString (text' t)), (ascii ''completed'', JBool (completed t))], rest)"
    using v2 skip_ws_quote m3 by (rule parse_members_more)
  have v1: "parse_value (Suc (Suc (Suc n))) ?v1 = Parsed (JString (id' t), 0x2C # ?m2)"
    by (rule parse_value_string)
  have m1: "parse_members (Suc (Suc (Suc (Suc n)))) ?m1
      = Parsed ([(ascii ''id'', JString (id' t)), (ascii ''text'', JString (text' t)),
                 (ascii ''completed'', JBool (completed t))], rest)"
    using v1 skip_ws_quote m2 by (rule parse_members_more)
  have "parse_value (Suc (Suc (Suc (Suc (Suc n))))) (0x7B # ?m1) = Parsed (todo_json t, rest)"
    using parse_value_object[OF m1] by (simp only: object_of_todo todo_json_def)
  then show ?thesis by (simp only: s)
qed


lemma stringify_todo_head: "stringify_todo t = 0x7B # tl (stringify_todo t)"
  by (simp add: stringify_todo_def ascii_def)

lemma join_comma_head:
  "join_comma (map stringify_todo (t # ts)) = 0x7B # tl (join_comma (map stringify_todo (t # ts)))"
proof (cases ts)
  case Nil
  then show ?thesis using stringify_todo_head[of t] by simp
next
  case (Cons a list)
  then show ?thesis by (simp add: stringify_todo_def ascii_def)
qed

lemma skip_ws_join:
  "skip_ws (join_comma (map stringify_todo (t # ts)) @ r) = join_comma (map stringify_todo (t # ts)) @ r"
proof -
  obtain x where "join_comma (map stringify_todo (t # ts)) = 0x7B # x"
    using join_comma_head by blast
  then show ?thesis by (simp add: skip_ws_Cons is_json_ws_def)
qed

lemma fuel_five: "5 \<le> m \<Longrightarrow> \<exists>k. m = Suc (Suc (Suc (Suc (Suc k))))"
  by (rule exI[of _ "m - 5"]) simp

lemma parse_elements_todos:
  "length ts + 6 \<le> n \<Longrightarrow>
     parse_elements n (join_comma (map stringify_todo (t # ts)) @ 0x5D # rest)
       = Parsed (map todo_json (t # ts), rest)"
proof (induction ts arbitrary: t n)
  case Nil
  then obtain m where n: "n = Suc m" and "5 \<le> m" by (cases n) auto
  then obtain k where m: "m = Suc (Suc (Suc (Suc (Suc k))))" using fuel_five by blast
  have "parse_value m (stringify_todo t @ 0x5D # rest) = Parsed (todo_json t, 0x5D # rest)"
    unfolding m by (rule parse_value_todo)
  then show ?case
    by (simp add: n skip_ws_Cons is_json_ws_def)
next
  case (Cons a ts)
  then obtain m where n: "n = Suc m" and le: "length ts + 6 \<le> m" by (cases n) auto
  then obtain k where m: "m = Suc (Suc (Suc (Suc (Suc k))))" using fuel_five[of m] by auto
  let ?tail = "join_comma (map stringify_todo (a # ts)) @ 0x5D # rest"
  have v: "parse_value m (stringify_todo t @ 0x2C # ?tail) = Parsed (todo_json t, 0x2C # ?tail)"
    unfolding m by (rule parse_value_todo)
  have e: "parse_elements m (skip_ws ?tail) = Parsed (map todo_json (a # ts), rest)"
    unfolding skip_ws_join using le by (rule Cons.IH)
  have j: "join_comma (map stringify_todo (t # a # ts)) @ 0x5D # rest = stringify_todo t @ 0x2C # ?tail"
    by simp
  show ?case
    unfolding j n using v e by (simp add: skip_ws_Cons is_json_ws_def)
qed

lemma length_stringify_todo: "3 \<le> length (stringify_todo t)"
  by (simp add: stringify_todo_def ascii_def quote_def)

lemma length_join_comma: "length ts * 3 \<le> length (join_comma (map stringify_todo ts))"
proof (induction ts rule: induct_list012)
  case 1
  show ?case by simp
next
  case (2 x)
  show ?case using length_stringify_todo[of x] by simp
next
  case (3 x y zs)
  then show ?case using length_stringify_todo[of x] by simp
qed

lemma parse_value_array:
  assumes "parse_elements n (0x7B # x) = Parsed (vs, rest)"
  shows "parse_value (Suc n) (0x5B # 0x7B # x) = Parsed (JArray vs, rest)"
  using assms by (simp add: skip_ws_Cons is_json_ws_def)

lemma parse_value_empty_array: "parse_value (Suc n) [0x5B, 0x5D] = Parsed (JArray [], [])"
  by (simp add: skip_ws_Cons is_json_ws_def)

lemma JSON_parse_stringify: "JSON_parse (JSON_stringify ts) = Some (todos_json ts)"
proof (cases ts)
  case Nil
  have "parse_value (Suc (Suc (2 * length [0x5B, 0x5D :: code_unit]))) [0x5B, 0x5D] = Parsed (JArray [], [])"
    by (rule parse_value_empty_array)
  then have "parse_value (2 * length [0x5B, 0x5D :: code_unit] + 2) (skip_ws [0x5B, 0x5D])
      = Parsed (JArray [], [])"
    by (simp add: skip_ws_Cons is_json_ws_def del: parse_value.simps)
  then show ?thesis
    by (simp add: Nil JSON_parse_def JSON_stringify_def todos_json_def skip_ws_def
        del: parse_value.simps)
next
  case (Cons t ts')
  define j where "j = join_comma (map stringify_todo (t # ts'))"
  define s where "s = JSON_stringify ts"
  have s: "s = 0x5B # j @ [0x5D]"
    by (simp add: s_def j_def JSON_stringify_def Cons)
  obtain x where x: "j = 0x7B # x"
    unfolding j_def using join_comma_head by blast
  have "length (t # ts') * 3 \<le> length j"
    unfolding j_def by (rule length_join_comma)
  then have "length ts' + 6 \<le> Suc (2 * length s)"
    by (simp add: s)
  then have "parse_elements (Suc (2 * length s)) (j @ 0x5D # []) = Parsed (map todo_json (t # ts'), [])"
    unfolding j_def by (rule parse_elements_todos)
  then have "parse_elements (Suc (2 * length s)) (0x7B # x @ [0x5D]) = Parsed (map todo_json ts, [])"
    by (simp only: x Cons append_Cons)
  then have "parse_value (Suc (Suc (2 * length s))) (0x5B # 0x7B # x @ [0x5D]) = Parsed (JArray (map todo_json ts), [])"
    by (rule parse_value_array)
  then have "parse_value (2 * length s + 2) (skip_ws s) = Parsed (todos_json ts, [])"
    by (simp add: s x skip_ws_Cons is_json_ws_def todos_json_def del: parse_value.simps)
  then show ?thesis
    by (simp add: JSON_parse_def skip_ws_def s_def del: parse_value.simps)
qed

lemma as_todo_todo_json: "as_todo (todo_json t) = Some t"
  by (simp add: as_todo_def todo_json_def)

lemma as_todo_list_map: "as_todo_list (map todo_json ts) = Some ts"
  by (induction ts) (simp_all add: as_todo_todo_json)

lemma as_todos_todos_json: "as_todos (todos_json ts) = Some ts"
  by (simp add: as_todos_def todos_json_def as_todo_list_map)




lemma JSON_parse_empty: "JSON_parse [] = None"
  by (simp add: JSON_parse_def skip_ws_def)

subsection \<open>The parser consumes its input, and the fuel is enough\<close>

lemma length_skip_ws: "length (skip_ws s) \<le> length s"
  by (simp add: skip_ws_def length_dropWhile_le)

lemma skip_ws_eq_Cons: "skip_ws s = c # r \<Longrightarrow> length r < length s"
  using length_skip_ws[of s] by simp

lemma prepend_Some: "prepend u x = Some (str, rest) \<Longrightarrow> \<exists>str'. x = Some (str', rest)"
  by (auto simp: prepend_def split: option.splits)

lemma parse_chars_shorter: "parse_chars s = Some (str, rest) \<Longrightarrow> length rest < length s"
proof (induction s arbitrary: str rule: parse_chars.induct)
  case 1
  then show ?case by (simp add: parse_chars.simps)
next
  case (2 c s)
  show ?case
  proof (cases "c = 0x22")
    case True
    then show ?thesis using 2(4) by (simp add: parse_chars.simps)
  next
    case q: False
    show ?thesis
    proof (cases "c = 0x5C")
      case True
      show ?thesis
      proof (cases s)
        case Nil
        then show ?thesis using 2(4) q True by (simp add: parse_chars.simps)
      next
        case (Cons e s1)
        show ?thesis
        proof (cases "e = 0x75")
          case u: True
          from 2(4) q True Cons u obtain h1 h2 h3 h4 s2 v where
            s1: "s1 = h1 # h2 # h3 # h4 # s2" and h: "hex4 h1 h2 h3 h4 = Some v"
            and p: "prepend v (parse_chars s2) = Some (str, rest)"
            by (auto simp: parse_chars.simps split: list.splits option.splits)
          from p obtain str' where "parse_chars s2 = Some (str', rest)"
            using prepend_Some by blast
          then have "length rest < length s2"
            using 2(1)[OF q True Cons u s1 _ _ _ h] by simp
          then show ?thesis by (simp add: Cons s1)
        next
          case nu: False
          from 2(4) q True Cons nu obtain v where
            h: "simple_escape e = Some v" and p: "prepend v (parse_chars s1) = Some (str, rest)"
            by (auto simp: parse_chars.simps split: option.splits)
          from p obtain str' where "parse_chars s1 = Some (str', rest)"
            using prepend_Some by blast
          then have "length rest < length s1"
            using 2(2)[OF q True Cons nu h] by simp
          then show ?thesis by (simp add: Cons)
        qed
      qed
    next
      case b: False
      from 2(4) q b have c: "\<not> c < 0x20" and p: "prepend c (parse_chars s) = Some (str, rest)"
        by (auto simp: parse_chars.simps split: if_splits)
      from p obtain str' where "parse_chars s = Some (str', rest)"
        using prepend_Some by blast
      then have "length rest < length s"
        using 2(3)[OF q b c] by simp
      then show ?thesis by simp
    qed
  qed
qed


lemma digits_then_shorter: "digits_then s = Some (ds, rest) \<Longrightarrow> length rest < length s"
proof -
  assume a: "digits_then s = Some (ds, rest)"
  then have "takeWhile is_digit s \<noteq> []" and r: "rest = dropWhile is_digit s"
    by (auto simp: digits_then_def split: if_splits)
  then have "0 < length (takeWhile is_digit s)" by simp
  moreover have "length (takeWhile is_digit s) + length (dropWhile is_digit s) = length s"
    by (metis length_append takeWhile_dropWhile_id)
  ultimately have "length (dropWhile is_digit s) < length s" by linarith
  then show ?thesis by (simp only: r)
qed

lemma parse_int_part_shorter: "parse_int_part s = Some (ip, rest) \<Longrightarrow> length rest < length s"
  by (auto simp: parse_int_part_def split: list.splits if_splits dest: digits_then_shorter)

lemma parse_fraction_shorter: "parse_fraction s = Some (fp, rest) \<Longrightarrow> length rest \<le> length s"
  by (auto simp: parse_fraction_def split: list.splits if_splits option.splits
      dest!: digits_then_shorter)

lemma parse_exponent_shorter: "parse_exponent s = Some (ep, rest) \<Longrightarrow> length rest \<le> length s"
  by (auto simp: parse_exponent_def split: list.splits if_splits option.splits
      dest!: digits_then_shorter)

lemma parse_number_shorter:
  assumes "parse_number s = Some (lexeme, rest)"
  shows "length rest < length s"
proof -
  define s0 where "s0 = (case s of [] \<Rightarrow> s | c # r \<Rightarrow> if c = 0x2D then r else s)"
  have s0: "length s0 \<le> length s"
    by (simp add: s0_def split: list.splits)
  from assms obtain ip s1 fp s2 ep where
    "parse_int_part s0 = Some (ip, s1)" "parse_fraction s1 = Some (fp, s2)"
    "parse_exponent s2 = Some (ep, rest)"
    by (auto simp: parse_number_def s0_def Let_def split: list.splits if_splits option.splits)
  then have "length s1 < length s0" "length s2 \<le> length s1" "length rest \<le> length s2"
    by (simp_all add: parse_int_part_shorter parse_fraction_shorter parse_exponent_shorter)
  then show ?thesis using s0 by simp
qed

lemma take_eq_length: "take n s = t \<Longrightarrow> length t = n \<Longrightarrow> n \<le> length s"
  by (metis length_take min.cobounded1 min_def nat_le_linear)

lemma parse_literal_shorter: "parse_literal s = Some (v, rest) \<Longrightarrow> length rest < length s"
proof -
  assume a: "parse_literal s = Some (v, rest)"
  have t: "length (ascii ''true'') = 4" "length (ascii ''false'') = 5" "length (ascii ''null'') = 4"
    by (simp_all add: ascii_def)
  from a consider "take 4 s = ascii ''true''" "rest = drop 4 s"
    | "take 5 s = ascii ''false''" "rest = drop 5 s"
    | "take 4 s = ascii ''null''" "rest = drop 4 s"
    by (auto simp: parse_literal_def split: if_splits)
  then show ?thesis
  proof cases
    case 1
    then have "4 \<le> length s" using take_eq_length t(1) by blast
    then show ?thesis using 1 by simp
  next
    case 2
    then have "5 \<le> length s" using take_eq_length t(2) by blast
    then show ?thesis using 2 by simp
  next
    case 3
    then have "4 \<le> length s" using take_eq_length t(3) by blast
    then show ?thesis using 3 by simp
  qed
qed


lemma skip_ws_less: "length r < length (skip_ws x) \<Longrightarrow> length r < length x"
  using length_skip_ws[of x] by simp

lemma parse_consumes:
  "(\<forall>s v r. parse_value n s = Parsed (v, r) \<longrightarrow> length r < length s) \<and>
   (\<forall>s vs r. parse_elements n s = Parsed (vs, r) \<longrightarrow> length r < length s) \<and>
   (\<forall>s ms r. parse_members n s = Parsed (ms, r) \<longrightarrow> length r < length s)"
proof (induction n)
  case 0
  show ?case by simp
next
  case (Suc n)
  then have V: "\<And>s v r. parse_value n s = Parsed (v, r) \<Longrightarrow> length r < length s"
    and E: "\<And>s vs r. parse_elements n s = Parsed (vs, r) \<Longrightarrow> length r < length s"
    and M: "\<And>s ms r. parse_members n s = Parsed (ms, r) \<Longrightarrow> length r < length s"
    by blast+
  have v: "length r < length s" if "parse_value (Suc n) s = Parsed (v, r)" for s v r
    using that
    by (auto split: list.splits if_splits parse_result.splits option.splits prod.splits
        dest!: E M parse_chars_shorter parse_number_shorter parse_literal_shorter skip_ws_eq_Cons
          skip_ws_less)
  have e: "length r < length s" if "parse_elements (Suc n) s = Parsed (vs, r)" for s vs r
    using that
    by (auto split: list.splits if_splits parse_result.splits option.splits prod.splits
        dest!: V E skip_ws_eq_Cons skip_ws_less)
  have m: "length r < length s" if "parse_members (Suc n) s = Parsed (ms, r)" for s ms r
    using that
    by (auto split: list.splits if_splits parse_result.splits option.splits prod.splits
        dest!: V M parse_chars_shorter skip_ws_eq_Cons skip_ws_less)
  show ?case using v e m by blast
qed


lemma parse_value_consumes: "parse_value n s = Parsed (v, r) \<Longrightarrow> length r < length s"
  using parse_consumes[of n] by blast

lemma skip_ws_le_Suc: "n \<le> Suc (2 * length (skip_ws x)) \<Longrightarrow> n \<le> Suc (2 * length x)"
  using length_skip_ws[of x] by simp

lemma skip_ws_le: "n \<le> 2 * length (skip_ws x) \<Longrightarrow> n \<le> 2 * length x"
  using length_skip_ws[of x] by simp

lemma out_of_fuel_bound:
  "(\<forall>s. parse_value n s = OutOfFuel \<longrightarrow> n \<le> 2 * length s) \<and>
   (\<forall>s. parse_elements n s = OutOfFuel \<longrightarrow> n \<le> 2 * length s + 1) \<and>
   (\<forall>s. parse_members n s = OutOfFuel \<longrightarrow> n \<le> 2 * length s + 1)"
proof (induction n)
  case 0
  show ?case by simp
next
  case (Suc n)
  then have V: "\<And>s. parse_value n s = OutOfFuel \<Longrightarrow> n \<le> 2 * length s"
    and E: "\<And>s. parse_elements n s = OutOfFuel \<Longrightarrow> n \<le> 2 * length s + 1"
    and M: "\<And>s. parse_members n s = OutOfFuel \<Longrightarrow> n \<le> 2 * length s + 1"
    by blast+
  have v: "Suc n \<le> 2 * length s" if "parse_value (Suc n) s = OutOfFuel" for s
    using that
    by (auto split: list.splits if_splits parse_result.splits option.splits prod.splits
        dest!: E M skip_ws_eq_Cons)
  have e: "Suc n \<le> 2 * length s + 1" if "parse_elements (Suc n) s = OutOfFuel" for s
    using that
    by (auto split: list.splits if_splits parse_result.splits option.splits prod.splits
        dest!: V E skip_ws_eq_Cons parse_value_consumes skip_ws_less skip_ws_le_Suc skip_ws_le)
  have m: "Suc n \<le> 2 * length s + 1" if "parse_members (Suc n) s = OutOfFuel" for s
    using that
    by (auto split: list.splits if_splits parse_result.splits option.splits prod.splits
        dest!: V M parse_chars_shorter skip_ws_eq_Cons parse_value_consumes skip_ws_less
          skip_ws_le_Suc skip_ws_le)
  show ?case using v e m by blast
qed

lemma JSON_parse_fuel: "parse_value (2 * length s + 2) (skip_ws s) \<noteq> OutOfFuel"
proof
  assume "parse_value (2 * length s + 2) (skip_ws s) = OutOfFuel"
  then have "2 * length s + 2 \<le> 2 * length (skip_ws s)"
    using out_of_fuel_bound[of "2 * length s + 2"] by blast
  then show False using length_skip_ws[of s] by simp
qed

lemma JSON_parse_None:
  "JSON_parse s = None \<longleftrightarrow>
     parse_value (2 * length s + 2) (skip_ws s) = SyntaxError
     \<or> (\<exists>v rest. parse_value (2 * length s + 2) (skip_ws s) = Parsed (v, rest) \<and> skip_ws rest \<noteq> [])"
  using JSON_parse_fuel[of s]
  by (cases "parse_value (2 * length s + 2) (skip_ws s)") (auto simp: JSON_parse_def)

subsection \<open>Loading what was persisted\<close>

lemma getItem_persist:
  "getItem (persist (Working m) s) STORAGE_KEY = Resolved (Some (JSON_stringify (todos s)))"
  by (simp add: persist_def setItem_def getItem_def)

lemma loadTodos_parsed:
  assumes "getItem st STORAGE_KEY = Resolved (Some data)" and "JSON_parse data = Some v"
  shows "loadTodos st s = (case as_todos v of None \<Rightarrow> Inl v | Some ts \<Rightarrow> Inr (s\<lparr>todos := ts\<rparr>))"
proof -
  have "data \<noteq> []" using assms(2) JSON_parse_empty by auto
  then show ?thesis using assms by (simp add: loadTodos_def)
qed

lemma loadTodos_stringify:
  assumes "getItem st STORAGE_KEY = Resolved (Some (JSON_stringify ts))"
  shows "loadTodos st s = Inr (s\<lparr>todos := ts\<rparr>)"
  using loadTodos_parsed[OF assms JSON_parse_stringify] by (simp add: as_todos_todos_json)










section \<open>The generated id, and the scenario of the specification\<close>

text \<open>
  The decimal rendering of the clock is never empty, so a generated id is never the
  empty string: a task that the program created can always be opened for editing.
\<close>

lemma decimal_nonempty: "decimal n \<noteq> []"
  by (subst decimal.simps) simp

lemma uuid_nonempty: "uuid env \<noteq> []"
  by (simp add: uuid_def number_to_string_def decimal_nonempty)

lemma uuid_truthy: "truthy (Some (uuid env))"
  by (simp add: truthy_def uuid_nonempty)

lemma sample_uuids:
  "uuid sample_env = ascii ''4fzyo82m1700000000000''"
  "uuid later_env = ascii ''9d1c2q7h1700000005000''"
  by (simp_all add: uuid_def sample_env_def later_env_def substring_def number_to_string_def
      ascii_def digit_unit_def)

text \<open>
  The scenario of the specification: create "Buy milk", create "Walk dog", toggle the
  first, delete the second.
\<close>

lemma spec_scenario:
  "todos (handleSave sample_env (setInput (ascii ''Buy milk'') (openAddModal initial_state)))
     = [\<lparr>id' = uuid sample_env, text' = ascii ''Buy milk'', completed = False\<rparr>]"
  "todos (handleSave later_env (setInput (ascii ''Walk dog'') (openAddModal
      (handleSave sample_env (setInput (ascii ''Buy milk'') (openAddModal initial_state))))))
     = [\<lparr>id' = uuid later_env, text' = ascii ''Walk dog'', completed = False\<rparr>,
        \<lparr>id' = uuid sample_env, text' = ascii ''Buy milk'', completed = False\<rparr>]"
  "todos (handleToggle (uuid sample_env) (handleSave later_env (setInput (ascii ''Walk dog'') (openAddModal
      (handleSave sample_env (setInput (ascii ''Buy milk'') (openAddModal initial_state)))))))
     = [\<lparr>id' = uuid later_env, text' = ascii ''Walk dog'', completed = False\<rparr>,
        \<lparr>id' = uuid sample_env, text' = ascii ''Buy milk'', completed = True\<rparr>]"
  "todos (handleDelete (uuid later_env) (handleToggle (uuid sample_env)
      (handleSave later_env (setInput (ascii ''Walk dog'') (openAddModal
      (handleSave sample_env (setInput (ascii ''Buy milk'') (openAddModal initial_state))))))))
     = [\<lparr>id' = uuid sample_env, text' = ascii ''Buy milk'', completed = True\<rparr>]"
  by (simp_all add: sample_uuids handleSave_def handleToggle_def handleDelete_def setInput_def
      openAddModal_def initial_state_def truthy_def trim_def is_white_space_def ascii_def Let_def)


section \<open>Auxiliary facts about lists\<close>

lemma map_upd_absent:
  "i \<notin> f ` set xs \<Longrightarrow> map (\<lambda>x. if f x = i then g x else x) xs = xs"
  by (rule map_idI) auto

lemma map_upd_split:
  assumes "distinct (map f (xs @ t # ys))" "f t = i"
  shows "map (\<lambda>x. if f x = i then g x else x) (xs @ t # ys) = xs @ g t # ys"
proof -
  have "i \<notin> f ` set xs" "i \<notin> f ` set ys"
    using assms by (auto simp: image_iff)
  then show ?thesis using assms(2) by (simp add: map_upd_absent)
qed

lemma filter_split:
  assumes "distinct (map f (xs @ t # ys))" "f t = i"
  shows "filter (\<lambda>x. f x \<noteq> i) (xs @ t # ys) = xs @ ys"
proof -
  have "\<forall>x \<in> set xs. f x \<noteq> i" "\<forall>x \<in> set ys. f x \<noteq> i"
    using assms by (auto simp: image_iff)
  then show ?thesis using assms(2) by simp
qed

lemma filter_absent: "i \<notin> f ` set xs \<Longrightarrow> filter (\<lambda>x. f x \<noteq> i) xs = xs"
  by (induction xs) auto

lemma map_upd_at_most_one:
  assumes "distinct (map f ts)"
  shows "map (\<lambda>x. if f x = i then g x else x) ts = ts
         \<or> (\<exists>xs t ys. ts = xs @ t # ys \<and> map (\<lambda>x. if f x = i then g x else x) ts = xs @ g t # ys)"
proof (cases "i \<in> f ` set ts")
  case True
  then obtain t where "t \<in> set ts" and t: "f t = i" by auto
  then obtain xs ys where ts: "ts = xs @ t # ys" by (auto dest: split_list)
  then have "map (\<lambda>x. if f x = i then g x else x) (xs @ t # ys) = xs @ g t # ys"
    using assms t map_upd_split[of f xs t ys i g] by simp
  then show ?thesis using ts by blast
next
  case False
  then show ?thesis by (simp add: map_upd_absent)
qed

lemma filter_at_most_one:
  assumes "distinct (map f ts)"
  shows "filter (\<lambda>x. f x \<noteq> i) ts = ts
         \<or> (\<exists>xs t ys. ts = xs @ t # ys \<and> filter (\<lambda>x. f x \<noteq> i) ts = xs @ ys)"
proof (cases "i \<in> f ` set ts")
  case True
  then obtain t where "t \<in> set ts" and t: "f t = i" by auto
  then obtain xs ys where ts: "ts = xs @ t # ys" by (auto dest: split_list)
  then have "filter (\<lambda>x. f x \<noteq> i) (xs @ t # ys) = xs @ ys"
    using assms t filter_split[of f xs t ys i] by simp
  then show ?thesis using ts by blast
next
  case False
  then show ?thesis by (simp add: filter_absent)
qed

lemma changed_same: "changed ts ts = 0"
  by (induction ts) (auto simp: changed_def)

lemma changed_Cons: "changed (a # ts) (b # ts') = (if a \<noteq> b then 1 else 0) + changed ts ts'"
  by (simp add: changed_def)

lemma changed_map_upd:
  "distinct (map f ts) \<Longrightarrow> changed ts (map (\<lambda>x. if f x = i then g x else x) ts) \<le> 1"
proof (induction ts)
  case Nil
  show ?case by (simp add: changed_def)
next
  case (Cons a ts)
  show ?case
  proof (cases "f a = i")
    case True
    then have "i \<notin> f ` set ts" using Cons.prems by auto
    then have "map (\<lambda>x. if f x = i then g x else x) ts = ts" by (rule map_upd_absent)
    then show ?thesis by (simp add: changed_Cons changed_same)
  next
    case False
    then show ?thesis using Cons by (simp add: changed_Cons)
  qed
qed

lemma handleSave_edit:
  assumes "trim (input s) \<noteq> []" "editingId s = Some i" "i \<noteq> []"
  shows "todos (handleSave env s) =
        map (\<lambda>t. if id' t = i then t\<lparr>text' := trim (input s)\<rparr> else t) (todos s)"
  using assms by (simp add: handleSave_def Let_def truthy_def)

lemma handleSave_create:
  assumes "trim (input s) \<noteq> []" "\<not> truthy (editingId s)"
  shows "todos (handleSave env s) =
           \<lparr>id' = uuid env, text' = trim (input s), completed = False\<rparr> # todos s"
  using assms by (simp add: handleSave_def Let_def)

lemma ids_map_upd_text: "ids (map (\<lambda>t. if P t then t\<lparr>text' := v\<rparr> else t) ts) = ids ts"
  by (induction ts) (auto simp: ids_def)

lemma ids_map_upd_completed: "ids (map (\<lambda>t. if P t then t\<lparr>completed := c t\<rparr> else t) ts) = ids ts"
  by (induction ts) (auto simp: ids_def)

lemma texts_map_upd_text:
  "texts_nonempty ts \<Longrightarrow> v \<noteq> [] \<Longrightarrow> texts_nonempty (map (\<lambda>t. if P t then t\<lparr>text' := v\<rparr> else t) ts)"
  by (induction ts) (auto simp: texts_nonempty_def)

lemma texts_map_upd_completed:
  "texts_nonempty ts \<Longrightarrow> texts_nonempty (map (\<lambda>t. if P t then t\<lparr>completed := c t\<rparr> else t) ts)"
  by (induction ts) (auto simp: texts_nonempty_def)

lemma texts_filter: "texts_nonempty ts \<Longrightarrow> texts_nonempty (filter P ts)"
  by (induction ts) (auto simp: texts_nonempty_def)

lemma ids_filter: "distinct (ids ts) \<Longrightarrow> distinct (ids (filter P ts))"
  by (simp add: ids_def distinct_map_filter)

lemma length_filter_distinct:
  "distinct (map f ts) \<Longrightarrow> length ts \<le> length (filter (\<lambda>x. f x \<noteq> i) ts) + 1"
proof (induction ts)
  case Nil show ?case by simp
next
  case (Cons a ts)
  show ?case
  proof (cases "f a = i")
    case True
    then have "i \<notin> f ` set ts" using Cons.prems by auto
    then show ?thesis using True by (simp add: filter_absent)
  next
    case False then show ?thesis using Cons by simp
  qed
qed


section \<open>Loading, serializing and persisting\<close>





section \<open>The operations on the list\<close>

text \<open>
  Claim C2. When the trimmed input is not empty and \<^verbatim>\<open>editingId\<close> is falsy (create mode),
  \<^verbatim>\<open>handleSave\<close> puts a new task in front of the list: its text is the trimmed input,
  it is not completed, its id is the generated one, and the rest of the list is the
  prior list in its prior order.
\<close>

theorem create_prepends:
  assumes "trim (input s) \<noteq> []" and "\<not> truthy (editingId s)"
  shows "todos (handleSave env s) =
           \<lparr>id' = uuid env, text' = trim (input s), completed = False\<rparr> # todos s"
  using assms by (rule handleSave_create)

theorem create_prepends_witness:
  "trim (input (setInput (ascii '' Buy milk '') (openAddModal two_todos))) \<noteq> []
   \<and> \<not> truthy (editingId (setInput (ascii '' Buy milk '') (openAddModal two_todos)))
   \<and> todos (handleSave sample_env (setInput (ascii '' Buy milk '') (openAddModal two_todos))) =
       [\<lparr>id' = ascii ''4fzyo82m1700000000000'', text' = ascii ''Buy milk'', completed = False\<rparr>,
        dog, milk]"
proof -
  let ?s = "setInput (ascii '' Buy milk '') (openAddModal two_todos)"
  have t: "trim (input ?s) = ascii ''Buy milk''"
    by (simp add: setInput_def trim_def ascii_def is_white_space_def)
  have h1: "trim (input ?s) \<noteq> []"
    by (simp add: t) (simp add: ascii_def)
  have h2: "\<not> truthy (editingId ?s)"
    by (simp add: setInput_def openAddModal_def truthy_def)
  have u: "uuid sample_env = ascii ''4fzyo82m1700000000000''"
    by (simp add: uuid_def sample_env_def substring_def number_to_string_def ascii_def digit_unit_def)
  have "todos ?s = [dog, milk]"
    by (simp add: setInput_def openAddModal_def two_todos_def initial_state_def)
  with create_prepends[OF h1 h2, of sample_env] h1 h2 show ?thesis
    by (simp only: t u) simp
qed

text \<open>
  Claim C3, as amended. On a list with pairwise distinct ids, with a trimmed input that
  is not empty and \<^verbatim>\<open>editingId\<close> holding a non-empty id \<open>i\<close>: if a task with id \<open>i\<close>
  exists, \<^verbatim>\<open>handleSave\<close> replaces the text of that task by the trimmed input and keeps
  its id, its flag, its position and every other task; if no task has id \<open>i\<close>, the
  list is unchanged.
\<close>

theorem edit_frame:
  assumes "distinct (ids (todos s))" and "trim (input s) \<noteq> []"
    and "editingId s = Some i" and "i \<noteq> []"
  shows "(\<forall>xs t ys. todos s = xs @ t # ys \<and> id' t = i \<longrightarrow>
            todos (handleSave env s) = xs @ t\<lparr>text' := trim (input s)\<rparr> # ys)
         \<and> (i \<notin> set (ids (todos s)) \<longrightarrow> todos (handleSave env s) = todos s)"
proof (intro conjI allI impI)
  fix xs t ys assume "todos s = xs @ t # ys \<and> id' t = i"
  then have split: "todos s = xs @ t # ys" and t: "id' t = i" by blast+
  have "distinct (map id' (xs @ t # ys))"
    using assms(1) split by (simp add: ids_def)
  then show "todos (handleSave env s) = xs @ t\<lparr>text' := trim (input s)\<rparr> # ys"
    using map_upd_split[of id' xs t ys i "\<lambda>t. t\<lparr>text' := trim (input s)\<rparr>"] t
    by (simp add: handleSave_edit[OF assms(2-4)] split)
next
  assume "i \<notin> set (ids (todos s))"
  then show "todos (handleSave env s) = todos s"
    by (simp add: handleSave_edit[OF assms(2-4)] ids_def map_upd_absent)
qed

theorem edit_frame_witness:
  "distinct (ids (todos (setInput (ascii ''Buy oat milk '') (openEditModal milk two_todos))))
   \<and> trim (input (setInput (ascii ''Buy oat milk '') (openEditModal milk two_todos))) \<noteq> []
   \<and> editingId (setInput (ascii ''Buy oat milk '') (openEditModal milk two_todos)) = Some (id' milk)
   \<and> id' milk \<noteq> []
   \<and> todos (setInput (ascii ''Buy oat milk '') (openEditModal milk two_todos)) = [dog] @ milk # []
   \<and> todos (handleSave sample_env (setInput (ascii ''Buy oat milk '') (openEditModal milk two_todos))) =
       [dog] @ milk\<lparr>text' := ascii ''Buy oat milk''\<rparr> # []
   \<and> editingId (setInput (ascii ''x'') (openEditModal milk (initial_state\<lparr>todos := [dog]\<rparr>))) = Some (id' milk)
   \<and> id' milk \<notin> set (ids (todos (setInput (ascii ''x'') (openEditModal milk (initial_state\<lparr>todos := [dog]\<rparr>)))))
   \<and> todos (handleSave sample_env (setInput (ascii ''x'') (openEditModal milk (initial_state\<lparr>todos := [dog]\<rparr>)))) = [dog]"
proof -
  let ?s = "setInput (ascii ''Buy oat milk '') (openEditModal milk two_todos)"
  let ?r = "setInput (ascii ''x'') (openEditModal milk (initial_state\<lparr>todos := [dog]\<rparr>))"
  have ts: "todos ?s = [dog] @ milk # []"
    by (simp add: setInput_def openEditModal_def two_todos_def initial_state_def)
  have t: "trim (input ?s) = ascii ''Buy oat milk''"
    by (simp add: setInput_def trim_def ascii_def is_white_space_def)
  have h1: "distinct (ids (todos ?s))"
    unfolding ts by (simp add: ids_def dog_def milk_def ascii_def)
  have h2: "trim (input ?s) \<noteq> []"
    by (simp add: t) (simp add: ascii_def)
  have h3: "editingId ?s = Some (id' milk)"
    by (simp add: setInput_def openEditModal_def)
  have h4: "id' milk \<noteq> []"
    by (simp add: milk_def ascii_def)
  have "todos ?s = [dog] @ milk # [] \<and> id' milk = id' milk \<longrightarrow>
      todos (handleSave sample_env ?s) = [dog] @ milk\<lparr>text' := trim (input ?s)\<rparr> # []"
    using edit_frame[OF h1 h2 h3 h4, of sample_env] by blast
  then have c1: "todos (handleSave sample_env ?s) = [dog] @ milk\<lparr>text' := ascii ''Buy oat milk''\<rparr> # []"
    using ts t by simp
  have tr: "todos ?r = [dog]"
    by (simp add: setInput_def openEditModal_def initial_state_def)
  have r1: "distinct (ids (todos ?r))"
    unfolding tr by (simp add: ids_def)
  have r2: "trim (input ?r) \<noteq> []"
    by (simp add: setInput_def trim_def ascii_def is_white_space_def)
  have r3: "editingId ?r = Some (id' milk)"
    by (simp add: setInput_def openEditModal_def)
  have r5: "id' milk \<notin> set (ids (todos ?r))"
    unfolding tr by (simp add: ids_def dog_def milk_def ascii_def)
  have "todos (handleSave sample_env ?r) = todos ?r"
    using edit_frame[OF r1 r2 r3 h4, of sample_env] r5 by blast
  then have c2: "todos (handleSave sample_env ?r) = [dog]"
    using tr by simp
  show ?thesis
    using h1 h2 h3 h4 ts c1 r3 r5 c2 by blast
qed

text \<open>
  The restriction to a non-empty id is needed. The load accepts a blob whose task has
  the empty string as id; opening that task for editing sets \<^verbatim>\<open>editingId\<close> to the
  empty string, which is falsy, so the save takes the create branch and prepends a new
  task instead of changing the text of the existing one.
\<close>

theorem edit_empty_id_counterexample:
  "loadTodos (persist empty_store (initial_state\<lparr>todos := [nameless]\<rparr>)) initial_state
     = Inr (initial_state\<lparr>todos := [nameless]\<rparr>)
   \<and> distinct (ids (todos nameless_edit))
   \<and> trim (input nameless_edit) \<noteq> []
   \<and> editingId nameless_edit = Some (id' nameless)
   \<and> todos nameless_edit = [] @ nameless # []
   \<and> todos (handleSave sample_env nameless_edit) \<noteq>
       [] @ nameless\<lparr>text' := trim (input nameless_edit)\<rparr> # []
   \<and> todos (handleSave sample_env nameless_edit) =
       [\<lparr>id' = uuid sample_env, text' = ascii ''b'', completed = False\<rparr>, nameless]"
proof -
  have "loadTodos (persist empty_store (initial_state\<lparr>todos := [nameless]\<rparr>)) initial_state
     = Inr (initial_state\<lparr>todos := [nameless]\<rparr>)"
    unfolding empty_store_def
    using loadTodos_stringify[OF getItem_persist, of Map.empty "initial_state\<lparr>todos := [nameless]\<rparr>" initial_state]
    by simp
  moreover have "distinct (ids (todos nameless_edit))
   \<and> trim (input nameless_edit) \<noteq> []
   \<and> editingId nameless_edit = Some (id' nameless)
   \<and> todos nameless_edit = [] @ nameless # []
   \<and> todos (handleSave sample_env nameless_edit) \<noteq>
       [] @ nameless\<lparr>text' := trim (input nameless_edit)\<rparr> # []
   \<and> todos (handleSave sample_env nameless_edit) =
       [\<lparr>id' = uuid sample_env, text' = ascii ''b'', completed = False\<rparr>, nameless]"
    by (simp add: nameless_edit_def nameless_def setInput_def openEditModal_def initial_state_def
      ids_def trim_def ascii_def is_white_space_def handleSave_def truthy_def Let_def)
  ultimately show ?thesis by blast
qed

text \<open>
  Claim C4. Toggling the same id twice gives back the state (so the flag of every task
  and the order are as before), toggling an id that no task has changes nothing, and on
  a list with pairwise distinct ids one toggle flips the flag of the task with the id
  and nothing else.
\<close>

theorem toggle_involution:
  "handleToggle i (handleToggle i s) = s
   \<and> (i \<notin> set (ids (todos s)) \<longrightarrow> handleToggle i s = s)
   \<and> (\<forall>xs t ys. distinct (ids (todos s)) \<and> todos s = xs @ t # ys \<and> id' t = i \<longrightarrow>
         todos (handleToggle i s) = xs @ t\<lparr>completed := \<not> completed t\<rparr> # ys)"
proof (intro conjI allI impI)
  show "handleToggle i (handleToggle i s) = s"
    by (simp add: handleToggle_def comp_def map_idI)
next
  assume "i \<notin> set (ids (todos s))"
  then show "handleToggle i s = s"
    by (simp add: handleToggle_def ids_def map_upd_absent)
next
  fix xs t ys
  assume "distinct (ids (todos s)) \<and> todos s = xs @ t # ys \<and> id' t = i"
  then have d: "distinct (ids (todos s))" and split: "todos s = xs @ t # ys"
    and t: "id' t = i" by blast+
  have "distinct (map id' (xs @ t # ys))"
    using d split by (simp add: ids_def)
  with split t show "todos (handleToggle i s) = xs @ t\<lparr>completed := \<not> completed t\<rparr> # ys"
    using map_upd_split[of id' xs t ys i "\<lambda>t. t\<lparr>completed := \<not> completed t\<rparr>"]
    by (simp add: handleToggle_def)
qed

theorem toggle_involution_witness:
  "handleToggle (id' milk) (handleToggle (id' milk) two_todos) = two_todos
   \<and> ascii ''zzz'' \<notin> set (ids (todos two_todos))
   \<and> handleToggle (ascii ''zzz'') two_todos = two_todos
   \<and> distinct (ids (todos two_todos)) \<and> todos two_todos = [dog] @ milk # []
   \<and> todos (handleToggle (id' milk) two_todos) = [dog] @ milk\<lparr>completed := True\<rparr> # []"
proof -
  have ts: "todos two_todos = [dog] @ milk # []"
    by (simp add: two_todos_def initial_state_def)
  have d: "distinct (ids (todos two_todos))"
    by (simp add: ts ids_def dog_def milk_def ascii_def)
  have a: "ascii ''zzz'' \<notin> set (ids (todos two_todos))"
    by (simp add: ts ids_def dog_def milk_def ascii_def)
  have m: "\<not> completed milk" by (simp add: milk_def)
  from toggle_involution[of "id' milk" two_todos]
  have c1: "handleToggle (id' milk) (handleToggle (id' milk) two_todos) = two_todos"
    and "distinct (ids (todos two_todos)) \<and> todos two_todos = [dog] @ milk # [] \<and> id' milk = id' milk
      \<longrightarrow> todos (handleToggle (id' milk) two_todos) =
          [dog] @ milk\<lparr>completed := \<not> completed milk\<rparr> # []"
    by blast+
  then have c3: "todos (handleToggle (id' milk) two_todos) = [dog] @ milk\<lparr>completed := True\<rparr> # []"
    using d ts m by simp
  from toggle_involution[of "ascii ''zzz''" two_todos] a
  have c2: "handleToggle (ascii ''zzz'') two_todos = two_todos" by blast
  show ?thesis using c1 a c2 d ts c3 by blast
qed

text \<open>
  Claim C5. On a list with pairwise distinct ids, deleting the id of a task removes
  that task and keeps the others in their order; deleting an id that no task has
  leaves the state as it is.
\<close>

theorem delete_exactly_one:
  assumes "distinct (ids (todos s))"
  shows "(\<forall>xs t ys. todos s = xs @ t # ys \<and> id' t = i \<longrightarrow>
            todos (handleDelete i s) = xs @ ys)
         \<and> (i \<notin> set (ids (todos s)) \<longrightarrow> handleDelete i s = s)"
proof (intro conjI allI impI)
  fix xs t ys assume "todos s = xs @ t # ys \<and> id' t = i"
  then have split: "todos s = xs @ t # ys" and t: "id' t = i" by blast+
  have "distinct (map id' (xs @ t # ys))"
    using assms split by (simp add: ids_def)
  then show "todos (handleDelete i s) = xs @ ys"
    using filter_split[of id' xs t ys i] t by (simp add: handleDelete_def split)
next
  assume "i \<notin> set (ids (todos s))"
  then show "handleDelete i s = s"
    by (simp add: handleDelete_def ids_def filter_absent)
qed

theorem delete_exactly_one_witness:
  "distinct (ids (todos two_todos)) \<and> todos two_todos = [] @ dog # [milk]
   \<and> todos (handleDelete (id' dog) two_todos) = [] @ [milk]
   \<and> ascii ''zzz'' \<notin> set (ids (todos two_todos))
   \<and> handleDelete (ascii ''zzz'') two_todos = two_todos"
proof -
  have ts: "todos two_todos = [] @ dog # [milk]"
    by (simp add: two_todos_def initial_state_def)
  have d: "distinct (ids (todos two_todos))"
    by (simp add: ts ids_def dog_def milk_def ascii_def)
  have a: "ascii ''zzz'' \<notin> set (ids (todos two_todos))"
    by (simp add: ts ids_def dog_def milk_def ascii_def)
  from delete_exactly_one[OF d, of "id' dog"] ts
  have c1: "todos (handleDelete (id' dog) two_todos) = [] @ [milk]" by blast
  from delete_exactly_one[OF d, of "ascii ''zzz''"] a
  have c2: "handleDelete (ascii ''zzz'') two_todos = two_todos" by blast
  show ?thesis using d ts c1 a c2 by blast
qed

text \<open>
  Claim C6. A save whose input trims to the empty string changes nothing, whatever
  \<^verbatim>\<open>editingId\<close> holds (create mode and edit mode alike).
\<close>

theorem save_rejects_blank:
  "trim (input s) = [] \<Longrightarrow> handleSave env s = s"
  by (simp add: handleSave_def)

theorem save_rejects_blank_witness:
  "trim (input (setInput (ascii ''   '') (openAddModal two_todos))) = []
   \<and> handleSave sample_env (setInput (ascii ''   '') (openAddModal two_todos)) =
       setInput (ascii ''   '') (openAddModal two_todos)
   \<and> trim (input (setInput [0x20, 0x09, 0xA0] (openEditModal milk two_todos))) = []
   \<and> truthy (editingId (setInput [0x20, 0x09, 0xA0] (openEditModal milk two_todos)))
   \<and> handleSave sample_env (setInput [0x20, 0x09, 0xA0] (openEditModal milk two_todos)) =
       setInput [0x20, 0x09, 0xA0] (openEditModal milk two_todos)"
proof -
  let ?a = "setInput (ascii ''   '') (openAddModal two_todos)"
  let ?e = "setInput [0x20, 0x09, 0xA0] (openEditModal milk two_todos)"
  have a: "trim (input ?a) = []"
    by (simp add: setInput_def trim_def ascii_def is_white_space_def)
  have e: "trim (input ?e) = []"
    by (simp add: setInput_def trim_def is_white_space_def)
  have m: "truthy (editingId ?e)"
    by (simp add: setInput_def openEditModal_def truthy_def milk_def ascii_def)
  show ?thesis
    using a e m save_rejects_blank[OF a, of sample_env] save_rejects_blank[OF e, of sample_env]
    by blast
qed

section \<open>The stored blob\<close>

text \<open>
  Claim C7. Parsing the serialization of a list of tasks gives back the value of that
  list, which reads back as the same list: the same tasks in the same order, equal in
  id, text and flag. This holds for every list of tasks, so for every list that the
  operations can produce. Loading what a persist wrote therefore restores the list.
\<close>

theorem serialize_roundtrip:
  "JSON_parse (JSON_stringify ts) = Some (todos_json ts)
   \<and> as_todos (todos_json ts) = Some ts
   \<and> loadTodos (persist (Working m) s) s' = Inr (s'\<lparr>todos := todos s\<rparr>)"
  using loadTodos_stringify[OF getItem_persist, of m s s']
  by (simp add: JSON_parse_stringify as_todos_todos_json)

theorem serialize_roundtrip_witness:
  "JSON_parse (JSON_stringify [tricky, milk]) = Some (todos_json [tricky, milk])
   \<and> as_todos (todos_json [tricky, milk]) = Some [tricky, milk]
   \<and> loadTodos (persist empty_store (initial_state\<lparr>todos := [tricky, milk]\<rparr>)) initial_state
        = Inr (initial_state\<lparr>todos := [tricky, milk]\<rparr>)"
  using serialize_roundtrip[of "[tricky, milk]" Map.empty "initial_state\<lparr>todos := [tricky, milk]\<rparr>" initial_state]
  by (simp add: empty_store_def)

text \<open>
  Claim C8. After a persist on a working store the blob under the storage key is the
  serialization of the whole current list, whatever the store held before; no other key
  changes; a second persist of the same state leaves the store as the first one did;
  and what is written depends on the list alone.
\<close>

theorem persist_idempotent:
  "getItem (persist (Working m) s) STORAGE_KEY = Resolved (Some (JSON_stringify (todos s)))
   \<and> (k \<noteq> STORAGE_KEY \<longrightarrow> getItem (persist st s) k = getItem st k)
   \<and> persist (persist st s) s = persist st s
   \<and> (todos s = todos s' \<longrightarrow> persist st s = persist st s')"
  by (cases st) (auto simp: persist_def setItem_def getItem_def)

theorem persist_idempotent_witness:
  "getItem (persist empty_store two_todos) STORAGE_KEY = Resolved (Some (JSON_stringify (todos two_todos)))
   \<and> ascii ''other'' \<noteq> STORAGE_KEY
   \<and> getItem (persist corrupt_store two_todos) (ascii ''other'') = getItem corrupt_store (ascii ''other'')
   \<and> persist (persist corrupt_store two_todos) two_todos = persist corrupt_store two_todos
   \<and> todos two_todos = todos (openAddModal two_todos)
   \<and> persist corrupt_store two_todos = persist corrupt_store (openAddModal two_todos)"
proof -
  have k: "ascii ''other'' \<noteq> STORAGE_KEY"
    by (simp add: STORAGE_KEY_def ascii_def)
  have t: "todos two_todos = todos (openAddModal two_todos)"
    by (simp add: openAddModal_def)
  note a = persist_idempotent[of Map.empty two_todos "ascii ''other''" corrupt_store "openAddModal two_todos"]
  have 1: "getItem (persist empty_store two_todos) STORAGE_KEY = Resolved (Some (JSON_stringify (todos two_todos)))"
    using a by (simp add: empty_store_def)
  have 2: "getItem (persist corrupt_store two_todos) (ascii ''other'') = getItem corrupt_store (ascii ''other'')"
    using a k by blast
  have 3: "persist (persist corrupt_store two_todos) two_todos = persist corrupt_store two_todos"
    using a by blast
  have 4: "persist corrupt_store two_todos = persist corrupt_store (openAddModal two_todos)"
    using a t by blast
  show ?thesis using 1 k 2 3 t 4 by blast
qed

section \<open>Invariants, and what happens without them\<close>

text \<open>
  Claim C9, as amended. From a list with pairwise distinct ids and non-empty texts,
  a create (a save with no \<^verbatim>\<open>editingId\<close>, with a generated id that no task has), an
  edit (a save whose \<^verbatim>\<open>editingId\<close> is a non-empty id), a toggle and a delete give a
  list with pairwise distinct ids and non-empty texts. The edit and the toggle leave
  the list as it is or replace one task in place, and the delete leaves the list as it
  is or removes one task.
\<close>

theorem invariants_preserved:
  assumes "distinct (ids (todos s))" and "texts_nonempty (todos s)"
  shows "(editingId s = None \<and> uuid env \<notin> set (ids (todos s)) \<longrightarrow>
            distinct (ids (todos (handleSave env s))) \<and> texts_nonempty (todos (handleSave env s)))
       \<and> (editingId s = Some e \<and> e \<noteq> [] \<longrightarrow>
            distinct (ids (todos (handleSave env s))) \<and> texts_nonempty (todos (handleSave env s))
            \<and> (todos (handleSave env s) = todos s
                \<or> (\<exists>xs t ys. todos s = xs @ t # ys
                      \<and> todos (handleSave env s) = xs @ t\<lparr>text' := trim (input s)\<rparr> # ys))
            \<and> changed (todos s) (todos (handleSave env s)) \<le> 1)
       \<and> distinct (ids (todos (handleToggle i s))) \<and> texts_nonempty (todos (handleToggle i s))
       \<and> (todos (handleToggle i s) = todos s
           \<or> (\<exists>xs t ys. todos s = xs @ t # ys
                 \<and> todos (handleToggle i s) = xs @ t\<lparr>completed := \<not> completed t\<rparr> # ys))
       \<and> changed (todos s) (todos (handleToggle i s)) \<le> 1
       \<and> distinct (ids (todos (handleDelete i s))) \<and> texts_nonempty (todos (handleDelete i s))
       \<and> (todos (handleDelete i s) = todos s
           \<or> (\<exists>xs t ys. todos s = xs @ t # ys \<and> todos (handleDelete i s) = xs @ ys))"
proof -
  have d: "distinct (map id' (todos s))" using assms(1) by (simp add: ids_def)
  have create: "distinct (ids (todos (handleSave env s))) \<and> texts_nonempty (todos (handleSave env s))"
    if "editingId s = None \<and> uuid env \<notin> set (ids (todos s))"
  proof (cases "trim (input s) = []")
    case True
    then show ?thesis using assms by (simp add: handleSave_def)
  next
    case False
    from that have "\<not> truthy (editingId s)" by (simp add: truthy_def)
    then show ?thesis using assms False that
      by (simp add: handleSave_create ids_def texts_nonempty_def)
  qed
  have edit: "distinct (ids (todos (handleSave env s))) \<and> texts_nonempty (todos (handleSave env s))
      \<and> (todos (handleSave env s) = todos s
          \<or> (\<exists>xs t ys. todos s = xs @ t # ys
                \<and> todos (handleSave env s) = xs @ t\<lparr>text' := trim (input s)\<rparr> # ys))
      \<and> changed (todos s) (todos (handleSave env s)) \<le> 1"
    if "editingId s = Some e \<and> e \<noteq> []"
  proof (cases "trim (input s) = []")
    case True
    then show ?thesis using assms by (simp add: handleSave_def changed_same)
  next
    case False
    from that have e: "editingId s = Some e" "e \<noteq> []" by simp_all
    note m = handleSave_edit[OF False e, of env]
    have 1: "distinct (ids (todos (handleSave env s)))"
      using assms(1) by (simp add: m ids_map_upd_text)
    have 2: "texts_nonempty (todos (handleSave env s))"
      using assms(2) False by (simp add: m texts_map_upd_text)
    have 3: "todos (handleSave env s) = todos s
          \<or> (\<exists>xs t ys. todos s = xs @ t # ys
                \<and> todos (handleSave env s) = xs @ t\<lparr>text' := trim (input s)\<rparr> # ys)"
      using map_upd_at_most_one[OF d, of e "\<lambda>t. t\<lparr>text' := trim (input s)\<rparr>"] by (simp only: m)
    have 4: "changed (todos s) (todos (handleSave env s)) \<le> 1"
      using changed_map_upd[OF d, of e] by (simp only: m)
    show ?thesis using 1 2 3 4 by blast
  qed
  have toggle: "distinct (ids (todos (handleToggle i s))) \<and> texts_nonempty (todos (handleToggle i s))"
    using assms by (simp add: handleToggle_def ids_map_upd_completed texts_map_upd_completed)
  have toggle_one: "todos (handleToggle i s) = todos s
       \<or> (\<exists>xs t ys. todos s = xs @ t # ys
             \<and> todos (handleToggle i s) = xs @ t\<lparr>completed := \<not> completed t\<rparr> # ys)"
    using map_upd_at_most_one[OF d, of i "\<lambda>t. t\<lparr>completed := \<not> completed t\<rparr>"]
    by (simp add: handleToggle_def)
  have toggle_changed: "changed (todos s) (todos (handleToggle i s)) \<le> 1"
    using changed_map_upd[OF d, of i] by (simp add: handleToggle_def)
  have delete: "distinct (ids (todos (handleDelete i s))) \<and> texts_nonempty (todos (handleDelete i s))"
    using assms by (simp add: handleDelete_def ids_filter texts_filter)
  have delete_one: "todos (handleDelete i s) = todos s
       \<or> (\<exists>xs t ys. todos s = xs @ t # ys \<and> todos (handleDelete i s) = xs @ ys)"
    using filter_at_most_one[OF d, of i] by (simp add: handleDelete_def)
  show ?thesis
    using create edit toggle toggle_one toggle_changed delete delete_one by blast
qed

theorem invariants_preserved_witness:
  "distinct (ids (todos two_todos)) \<and> texts_nonempty (todos two_todos)
   \<and> editingId (setInput (ascii ''Feed cat'') (openAddModal two_todos)) = None
   \<and> uuid sample_env \<notin> set (ids (todos two_todos))
   \<and> distinct (ids (todos (handleSave sample_env (setInput (ascii ''Feed cat'') (openAddModal two_todos)))))
   \<and> texts_nonempty (todos (handleSave sample_env (setInput (ascii ''Feed cat'') (openAddModal two_todos))))
   \<and> editingId (setInput (ascii ''Buy tea'') (openEditModal milk two_todos)) = Some (id' milk)
   \<and> id' milk \<noteq> []
   \<and> distinct (ids (todos (handleSave sample_env (setInput (ascii ''Buy tea'') (openEditModal milk two_todos)))))
   \<and> texts_nonempty (todos (handleSave sample_env (setInput (ascii ''Buy tea'') (openEditModal milk two_todos))))
   \<and> todos (handleSave sample_env (setInput (ascii ''Buy tea'') (openEditModal milk two_todos)))
        = [dog] @ milk\<lparr>text' := ascii ''Buy tea''\<rparr> # []
   \<and> changed (todos two_todos)
        (todos (handleSave sample_env (setInput (ascii ''Buy tea'') (openEditModal milk two_todos)))) \<le> 1
   \<and> distinct (ids (todos (handleToggle (id' milk) two_todos)))
   \<and> texts_nonempty (todos (handleToggle (id' milk) two_todos))
   \<and> todos (handleToggle (id' milk) two_todos) = [dog] @ milk\<lparr>completed := True\<rparr> # []
   \<and> changed (todos two_todos) (todos (handleToggle (id' milk) two_todos)) \<le> 1
   \<and> distinct (ids (todos (handleDelete (id' milk) two_todos)))
   \<and> texts_nonempty (todos (handleDelete (id' milk) two_todos))
   \<and> todos (handleDelete (id' milk) two_todos) = [dog] @ []"
proof -
  let ?a = "setInput (ascii ''Feed cat'') (openAddModal two_todos)"
  let ?e = "setInput (ascii ''Buy tea'') (openEditModal milk two_todos)"
  have ts: "todos two_todos = [dog, milk]"
    by (simp add: two_todos_def initial_state_def)
  have ta: "todos ?a = todos two_todos" and te: "todos ?e = todos two_todos"
    by (simp_all add: setInput_def openAddModal_def openEditModal_def)
  have d: "distinct (ids (todos two_todos))"
    unfolding ts by (simp add: ids_def dog_def milk_def ascii_def)
  have n: "texts_nonempty (todos two_todos)"
    unfolding ts by (simp add: texts_nonempty_def dog_def milk_def ascii_def)
  have na: "editingId ?a = None"
    by (simp add: setInput_def openAddModal_def)
  have ye: "editingId ?e = Some (id' milk)"
    by (simp add: setInput_def openEditModal_def)
  have ne: "id' milk \<noteq> []"
    by (simp add: milk_def ascii_def)
  have f: "uuid sample_env \<notin> set (ids (todos two_todos))"
    unfolding ts by (simp add: sample_uuids ids_def dog_def milk_def ascii_def)
  have d': "distinct (ids (todos ?a))" "texts_nonempty (todos ?a)"
    "distinct (ids (todos ?e))" "texts_nonempty (todos ?e)"
    using d n by (simp_all add: ta te)
  have f': "uuid sample_env \<notin> set (ids (todos ?a))" using f by (simp add: ta)
  note a = invariants_preserved[OF d'(1,2), of sample_env]
  note e = invariants_preserved[OF d'(3,4), of sample_env "id' milk"]
  note g = invariants_preserved[OF d n, of _ _ "id' milk"]
  have c1: "distinct (ids (todos (handleSave sample_env ?a)))"
    "texts_nonempty (todos (handleSave sample_env ?a))"
    using a na f' by blast+
  have c2: "distinct (ids (todos (handleSave sample_env ?e)))"
    "texts_nonempty (todos (handleSave sample_env ?e))"
    using e ye ne by blast+
  have "changed (todos ?e) (todos (handleSave sample_env ?e)) \<le> 1"
    using e ye ne by blast
  then have c3: "changed (todos two_todos) (todos (handleSave sample_env ?e)) \<le> 1"
    by (simp only: te)
  have c4: "todos (handleSave sample_env ?e) = [dog] @ milk\<lparr>text' := ascii ''Buy tea''\<rparr> # []"
    by (simp add: handleSave_def Let_def truthy_def setInput_def openEditModal_def two_todos_def
        initial_state_def trim_def is_white_space_def dog_def milk_def ascii_def)
  have c5: "distinct (ids (todos (handleToggle (id' milk) two_todos)))"
    "texts_nonempty (todos (handleToggle (id' milk) two_todos))"
    "changed (todos two_todos) (todos (handleToggle (id' milk) two_todos)) \<le> 1"
    "distinct (ids (todos (handleDelete (id' milk) two_todos)))"
    "texts_nonempty (todos (handleDelete (id' milk) two_todos))"
    using g by blast+
  have c6: "todos (handleToggle (id' milk) two_todos) = [dog] @ milk\<lparr>completed := True\<rparr> # []"
    by (simp add: handleToggle_def two_todos_def initial_state_def dog_def milk_def ascii_def)
  have c7: "todos (handleDelete (id' milk) two_todos) = [dog] @ []"
    by (simp add: handleDelete_def two_todos_def initial_state_def dog_def milk_def ascii_def)
  show ?thesis
    using d n na f c1 ye ne c2 c4 c3 c5 c6 c7 by blast
qed

text \<open>
  The restriction of the edit to a non-empty id is needed here as it is for claim C3.
  The load accepts a list that holds the task with the empty id next to a task whose
  id is the one generated next. Ids are distinct and texts are not empty; the save that
  edits the task with the empty id takes the create branch and prepends a task under
  the id that the other task has, so ids are no longer distinct. On the list of the
  task with the empty id alone, the same save changes two positions.
\<close>

theorem edit_empty_id_breaks_distinct_counterexample:
  "loadTodos (persist empty_store (initial_state\<lparr>todos := [nameless, clash]\<rparr>)) initial_state
     = Inr (initial_state\<lparr>todos := [nameless, clash]\<rparr>)
   \<and> todos clash_edit = [nameless, clash]
   \<and> distinct (ids (todos clash_edit))
   \<and> texts_nonempty (todos clash_edit)
   \<and> editingId clash_edit = Some (id' nameless)
   \<and> trim (input clash_edit) \<noteq> []
   \<and> todos (handleSave sample_env clash_edit)
        = [\<lparr>id' = id' clash, text' = ascii ''b'', completed = False\<rparr>, nameless, clash]
   \<and> \<not> distinct (ids (todos (handleSave sample_env clash_edit)))
   \<and> changed (todos nameless_edit) (todos (handleSave sample_env nameless_edit)) = 2"
proof -
  have l: "loadTodos (persist empty_store (initial_state\<lparr>todos := [nameless, clash]\<rparr>)) initial_state
     = Inr (initial_state\<lparr>todos := [nameless, clash]\<rparr>)"
    unfolding empty_store_def
    using loadTodos_stringify[OF getItem_persist, of Map.empty
        "initial_state\<lparr>todos := [nameless, clash]\<rparr>" initial_state]
    by simp
  have t: "todos clash_edit = [nameless, clash]"
    by (simp add: clash_edit_def setInput_def openEditModal_def)
  have d: "distinct (ids (todos clash_edit))"
    unfolding t by (simp add: ids_def nameless_def clash_def ascii_def)
  have n: "texts_nonempty (todos clash_edit)"
    unfolding t by (simp add: texts_nonempty_def nameless_def clash_def ascii_def)
  have e: "editingId clash_edit = Some (id' nameless)"
    by (simp add: clash_edit_def setInput_def openEditModal_def)
  have i: "trim (input clash_edit) = ascii ''b''"
    by (simp add: clash_edit_def setInput_def trim_def is_white_space_def ascii_def)
  then have i': "trim (input clash_edit) \<noteq> []"
    by (simp add: ascii_def)
  have u: "uuid sample_env = id' clash"
    by (simp add: sample_uuids clash_def)
  have nt: "\<not> truthy (editingId clash_edit)"
    by (simp add: e truthy_def nameless_def)
  have r: "todos (handleSave sample_env clash_edit)
        = [\<lparr>id' = id' clash, text' = ascii ''b'', completed = False\<rparr>, nameless, clash]"
    using handleSave_create[OF i' nt, of sample_env] by (simp add: u i t)
  have b: "\<not> distinct (ids (todos (handleSave sample_env clash_edit)))"
    unfolding r by (simp add: ids_def)
  have c: "changed (todos nameless_edit) (todos (handleSave sample_env nameless_edit)) = 2"
    by (simp add: changed_def nameless_edit_def nameless_def setInput_def openEditModal_def
        initial_state_def trim_def ascii_def is_white_space_def handleSave_def truthy_def Let_def
        sample_uuids)
  show ?thesis using l t d n e i' r b c by blast
qed



end
